theory Spec2Isabelle
  imports Complex_Main "HOL-Library.AList" "HOL-Library.Multiset"
begin

section \<open>Python values\<close>

text \<open>
  The embedding follows \<^verbatim>\<open>spider.py\<close> and \<^verbatim>\<open>tfidf.py\<close>.

  \<^item> A Python \<^verbatim>\<open>str\<close> is a \<^typ>\<open>string\<close>; one \<^typ>\<open>char\<close> stands for one code point, so
    \<^verbatim>\<open>len(token)\<close> is \<^term>\<open>length\<close>.
  \<^item> A Python \<^verbatim>\<open>int\<close> is an \<^typ>\<open>int\<close> (unbounded).
  \<^item> A Python \<^verbatim>\<open>float\<close> is a \<^typ>\<open>real\<close> that the float64 format represents; see the next
    section for the arithmetic.
  \<^item> A \<^verbatim>\<open>dict\<close> is an association list in insertion order, as Python iterates it.
    \<^verbatim>\<open>d[k] = v\<close> is \<^const>\<open>AList.update\<close>: it overwrites the value in place when the key is
    present and appends the pair otherwise. A list that stands for a dict has distinct keys.
  \<^item> Every \<^verbatim>\<open>raise\<close> is a value \<open>Inl e\<close> of a sum type.
\<close>

datatype error =
    Exception string
  | OSError
  | AttributeError
  | TypeError
  | KeyError
  | ZeroDivisionError
  | OverflowError
  | ValueError

section \<open>Float arithmetic\<close>

text \<open>
  A float64 is an integer multiple of a power of two, \<^verbatim>\<open>m * 2**k\<close> with \<^verbatim>\<open>abs(m) < 2**53\<close> and
  \<^verbatim>\<open>k >= -1074\<close>, below \<^verbatim>\<open>2**1024\<close> in absolute value. \<open>float64_round\<close> is rounding to the
  nearest such multiple, a tie going to the even one: the exponent of \<open>x\<close> is that of its
  binade, but at least -1022 (below \<^verbatim>\<open>2**-1022\<close> the floats are the multiples of
  \<^verbatim>\<open>2**-1074\<close>), the spacing of the floats there is \<open>float64_ulp\<close>, and \<open>x\<close> goes to the
  nearest multiple of the spacing. The range is not cut off by \<open>float64_round\<close> itself; the
  operation that can leave it tests for that.

  \<^item> \<^verbatim>\<open>a / b\<close> on two \<^verbatim>\<open>int\<close>s raises \<^verbatim>\<open>ZeroDivisionError\<close> when \<^verbatim>\<open>b\<close> is 0, returns the
    float nearest to the exact quotient, however big the operands are, and raises
    \<^verbatim>\<open>OverflowError\<close> when that float is out of range. A quotient too small for the format
    becomes 0.
  \<^item> \<^verbatim>\<open>math.log\<close> raises \<^verbatim>\<open>ValueError\<close> on a float that is not positive and returns
    what the \<^verbatim>\<open>log\<close> of the C library returns on a positive one. That function differs from
    one library to the next in the last bit, so it is a parameter of the model,
    \<open>libm_log\<close>. Where a property of it is needed, it is \<open>log_faithful\<close>: the result is a
    float, and no float lies between the result and the logarithm. That is an error below one
    unit in the last place, and \<^verbatim>\<open>log(1) = 0\<close> as Annex F of the C standard has it.
  \<^item> The product of two floats in \<^verbatim>\<open>create_word_vector\<close> is the float nearest to the exact
    product. One factor is a word rate between 0 and 1, so the product stays in range.
  \<^item> The two numpy operations of \<^verbatim>\<open>search\<close>, the difference of two arrays and
    \<^verbatim>\<open>np.linalg.norm\<close>, are read as the exact difference and the exact Euclidean norm: numpy
    leaves the order in which the squares are added to its linear algebra library, so the
    source does not fix the last bits of a distance.
  \<^item> Infinities, NaN and the sign of zero do not arise in these operations and are left out.
\<close>

definition round_half_even :: "real \<Rightarrow> int" where
  "round_half_even x =
     (let n = \<lfloor>x\<rfloor>
      in if x - real_of_int n < 1 / 2 then n
         else if 1 / 2 < x - real_of_int n then n + 1
         else if even n then n else n + 1)"

definition float64_exponent :: "real \<Rightarrow> int" where
  "float64_exponent x = max \<lfloor>log 2 \<bar>x\<bar>\<rfloor> (- 1022)"

definition float64_ulp :: "real \<Rightarrow> real" where
  "float64_ulp x = 2 powr real_of_int (float64_exponent x - 52)"

definition float64_round :: "real \<Rightarrow> real" where
  "float64_round x =
     sgn x * (real_of_int (round_half_even (\<bar>x\<bar> / float64_ulp x)) * float64_ulp x)"

definition is_float64 :: "real \<Rightarrow> bool" where
  "is_float64 x \<longleftrightarrow> (\<exists>m k. x = real_of_int m * 2 powr real_of_int k \<and> \<bar>m\<bar> < 2 ^ 53 \<and> - 1074 \<le> k)"

text \<open>The largest float64, \<^verbatim>\<open>sys.float_info.max\<close>.\<close>

definition float64_max :: real where
  "float64_max = real_of_int (2 ^ 53 - 1) * 2 ^ 971"

definition py_truediv :: "int \<Rightarrow> int \<Rightarrow> error + real" where
  "py_truediv a b =
     (if b = 0 then Inl ZeroDivisionError
      else (let q = float64_round (real_of_int a / real_of_int b)
            in if 2 ^ 1024 \<le> \<bar>q\<bar> then Inl OverflowError else Inr q))"

record libm =
  libm_log :: "real \<Rightarrow> real"

definition log_faithful :: "libm \<Rightarrow> bool" where
  "log_faithful lib \<longleftrightarrow>
     (\<forall>x. 0 < x \<longrightarrow>
        is_float64 (libm_log lib x) \<and>
        (\<forall>f. is_float64 f \<longrightarrow>
           (f \<le> ln x \<longrightarrow> f \<le> libm_log lib x) \<and> (ln x \<le> f \<longrightarrow> libm_log lib x \<le> f)))"

definition math_log :: "libm \<Rightarrow> real \<Rightarrow> error + real" where
  "math_log lib x = (if x \<le> 0 then Inl ValueError else Inr (libm_log lib x))"

fun list_index :: "'a list \<Rightarrow> 'a \<Rightarrow> nat option" where
  "list_index [] x = None"
| "list_index (y # ys) x = (if x = y then Some 0 else map_option Suc (list_index ys x))"

text \<open>\<^verbatim>\<open>{k: v for k, v in items}\<close> and \<^verbatim>\<open>d.update(other)\<close>: the pairs are stored one by one.\<close>

definition dict_update :: "('k \<times> 'v) list \<Rightarrow> ('k \<times> 'v) list \<Rightarrow> ('k \<times> 'v) list" where
  "dict_update d other = foldl (\<lambda>acc (k, v). AList.update k v acc) d other"

definition dict_of_items :: "('k \<times> 'v) list \<Rightarrow> ('k \<times> 'v) list" where
  "dict_of_items items = dict_update [] items"

section \<open>The text normaliser (NLTK)\<close>

text \<open>
  NLTK is not part of the repository. What the code uses of it is a parameter of the model:
  \<^verbatim>\<open>word_tokenize(content, language)\<close>, \<^verbatim>\<open>stopwords.words(language)\<close> (which raises when the
  stop-word corpus has no file for the language: \<open>None\<close>) and the \<^verbatim>\<open>stem\<close> method of the two
  Snowball stemmers.
\<close>

record nltk =
  word_tokenize :: "string \<Rightarrow> string \<Rightarrow> string list"
  stopwords_words :: "string \<Rightarrow> string list option"
  german_stem :: "string \<Rightarrow> string"
  english_stem :: "string \<Rightarrow> string"

datatype stemmer = GermanStemmer | EnglishStemmer

definition stem :: "nltk \<Rightarrow> stemmer \<Rightarrow> string \<Rightarrow> string" where
  "stem env st token =
     (case st of GermanStemmer \<Rightarrow> german_stem env token | EnglishStemmer \<Rightarrow> english_stem env token)"

section \<open>Spider\<close>

text \<open>
  The attribute \<^verbatim>\<open>stemmer\<close> is set on two of the three branches of the constructor only; on the
  third the exception object is built and dropped, so the attribute is missing: \<open>None\<close>.
\<close>

record spider =
  corpus :: string
  file_type :: string
  content :: "(string \<times> string) list"
  term_index :: "(string \<times> int) list"
  stopwords :: "string list"
  language :: string
  stemmer :: "stemmer option"

definition Spider_init :: "nltk \<Rightarrow> string \<Rightarrow> string \<Rightarrow> string \<Rightarrow> error + spider" where
  "Spider_init env corp ftype lang =
     (case stopwords_words env lang of
        None \<Rightarrow> Inl OSError
      | Some sw \<Rightarrow>
          Inr \<lparr>corpus = corp, file_type = ftype, content = [], term_index = [],
               stopwords = sw, language = lang,
               stemmer = (if lang = ''german'' then Some GermanStemmer
                          else if lang = ''english'' then Some EnglishStemmer
                          else None)\<rparr>)"

definition clear_index :: "spider \<Rightarrow> spider" where
  "clear_index s = s\<lparr>term_index := []\<rparr>"

text \<open>The loop of \<^verbatim>\<open>add_new_token\<close> over the tokens; \<open>cv\<close> is \<^verbatim>\<open>count_value\<close>.\<close>

fun add_new_token_loop :: "nltk \<Rightarrow> int \<Rightarrow> string list \<Rightarrow> spider \<Rightarrow> error + spider" where
  "add_new_token_loop env cv [] s = Inr s"
| "add_new_token_loop env cv (token # tokens) s =
     (if 1 < length token \<and> token \<notin> set (stopwords s) then
        (case stemmer s of
           None \<Rightarrow> Inl AttributeError
         | Some st \<Rightarrow>
             (let tok = stem env st token in
              (case map_of (term_index s) tok of
                 None \<Rightarrow>
                   add_new_token_loop env cv tokens
                     (s\<lparr>term_index := AList.update tok 1 (term_index s)\<rparr>)
               | Some c \<Rightarrow>
                   add_new_token_loop env cv tokens
                     (s\<lparr>term_index := AList.update tok (c + cv) (term_index s)\<rparr>))))
      else add_new_token_loop env cv tokens s)"

definition add_new_token :: "nltk \<Rightarrow> string \<Rightarrow> int \<Rightarrow> spider \<Rightarrow> error + spider" where
  "add_new_token env text cv s = add_new_token_loop env cv (word_tokenize env text (language s)) s"

text \<open>The two loops of \<^verbatim>\<open>generate_term_index\<close> call \<^verbatim>\<open>add_new_token\<close> on each text in turn.\<close>

fun add_all :: "nltk \<Rightarrow> int \<Rightarrow> string list \<Rightarrow> spider \<Rightarrow> error + spider" where
  "add_all env cv [] s = Inr s"
| "add_all env cv (text # texts) s =
     (case add_new_token env text cv s of
        Inl e \<Rightarrow> Inl e
      | Inr s' \<Rightarrow> add_all env cv texts s')"

definition generate_term_index :: "nltk \<Rightarrow> string list option \<Rightarrow> spider \<Rightarrow> error + spider" where
  "generate_term_index env additional_terms s =
     (case add_all env 1 (map snd (content s)) (clear_index s) of
        Inl e \<Rightarrow> Inl e
      | Inr s1 \<Rightarrow>
          (case additional_terms of
             None \<Rightarrow> Inr s1
           | Some terms \<Rightarrow> add_all env 0 terms s1))"

text \<open>
  \<^verbatim>\<open>sorted(..., key=lambda x: x[1], reverse=True)\<close> is stable: pairs of equal count keep their
  order. That is \<^const>\<open>sort_key\<close> on the negated count.
\<close>

definition get_index_dictionary :: "bool \<Rightarrow> spider \<Rightarrow> (string \<times> int) list" where
  "get_index_dictionary do_sort s =
     (if do_sort then dict_of_items (sort_key (\<lambda>(k, v). - v) (term_index s)) else term_index s)"

section \<open>Tfidf\<close>

record tfidf =
  spider :: spider
  idf :: "(string \<times> real) list"
  indexed_documents :: "(string \<times> real list) list"
  word_vector :: "string list"

text \<open>The four assignments that open \<^verbatim>\<open>Tfidf.__init__\<close>.\<close>

definition Tfidf_new :: "spider \<Rightarrow> tfidf" where
  "Tfidf_new sp = \<lparr>spider = sp, idf = [], indexed_documents = [], word_vector = []\<rparr>"

fun idf_loop :: "libm \<Rightarrow> (string \<times> int) list \<Rightarrow> int \<Rightarrow> string list \<Rightarrow> tfidf \<Rightarrow> error + tfidf" where
  "idf_loop lib ti total_count [] t = Inr t"
| "idf_loop lib ti total_count (word # ws) t =
     (case map_of ti word of
        None \<Rightarrow> Inl KeyError
      | Some c \<Rightarrow>
          (case py_truediv total_count c of
             Inl e \<Rightarrow> Inl e
           | Inr q \<Rightarrow>
               (case math_log lib q of
                  Inl e \<Rightarrow> Inl e
                | Inr w \<Rightarrow> idf_loop lib ti total_count ws (t\<lparr>idf := AList.update word w (idf t)\<rparr>))))"

definition init_term_frequency :: "libm \<Rightarrow> tfidf \<Rightarrow> error + tfidf" where
  "init_term_frequency lib t =
     (let ti = get_index_dictionary True (spider t);
          total_count = sum_list (map snd ti);
          t' = t\<lparr>word_vector := map fst ti\<rparr>
      in idf_loop lib ti total_count (word_vector t') t')"

text \<open>
  The loop of \<^verbatim>\<open>create_word_vector\<close> over the keys of the local term index \<open>ti\<close>;
  \<open>v\<close> is \<^verbatim>\<open>document_word_vector\<close>.
\<close>

fun vector_loop ::
  "tfidf \<Rightarrow> (string \<times> int) list \<Rightarrow> int \<Rightarrow> string list \<Rightarrow> real list \<Rightarrow> error + real list" where
  "vector_loop t ti len_tokens [] v = Inr v"
| "vector_loop t ti len_tokens (token # tokens) v =
     (if token \<in> set (word_vector t) then
        (case list_index (word_vector t) token of
           None \<Rightarrow> Inl ValueError
         | Some position \<Rightarrow>
             (case map_of (idf t) token of
                None \<Rightarrow> Inl KeyError
              | Some w \<Rightarrow>
                  (case map_of ti token of
                     None \<Rightarrow> Inl KeyError
                   | Some c \<Rightarrow>
                       (case py_truediv c len_tokens of
                          Inl e \<Rightarrow> Inl e
                        | Inr r \<Rightarrow> vector_loop t ti len_tokens tokens (v[position := float64_round (w * r)])))))
      else vector_loop t ti len_tokens tokens v)"

definition create_word_vector :: "nltk \<Rightarrow> tfidf \<Rightarrow> string \<Rightarrow> error + real list" where
  "create_word_vector env t text =
     (case Spider_init env ''data'' ''txt'' (language (spider t)) of
        Inl e \<Rightarrow> Inl e
      | Inr new_spider \<Rightarrow>
          (case add_new_token env text 1 new_spider of
             Inl e \<Rightarrow> Inl e
           | Inr new_spider' \<Rightarrow>
               (let ti = get_index_dictionary False new_spider';
                    len_tokens = sum_list (map snd ti)
                in vector_loop t ti len_tokens (map fst ti)
                     (replicate (length (word_vector t)) 0))))"

fun insert_documents :: "nltk \<Rightarrow> (string \<times> string) list \<Rightarrow> tfidf \<Rightarrow> error + tfidf" where
  "insert_documents env [] t = Inr t"
| "insert_documents env ((key, val) # rest) t =
     (case create_word_vector env t val of
        Inl e \<Rightarrow> Inl e
      | Inr v \<Rightarrow>
          insert_documents env rest
            (t\<lparr>indexed_documents := AList.update key v (indexed_documents t)\<rparr>))"

text \<open>
  \<^verbatim>\<open>Tfidf.__init__\<close>. With \<^verbatim>\<open>new_documents=None\<close> the policy \<^verbatim>\<open>'new'\<close> fails in
  \<^verbatim>\<open>content.items()\<close> and the policy \<^verbatim>\<open>'add'\<close> in \<^verbatim>\<open>content.update(None)\<close>.
\<close>

definition select_content ::
  "spider \<Rightarrow> string \<Rightarrow> (string \<times> string) list option \<Rightarrow> error + (string \<times> string) list" where
  "select_content sp index_documents new_documents =
     (if index_documents = ''same'' then Inr (content sp)
      else if index_documents = ''new'' then
        (case new_documents of None \<Rightarrow> Inl AttributeError | Some d \<Rightarrow> Inr d)
      else if index_documents = ''add'' then
        (case new_documents of None \<Rightarrow> Inl TypeError | Some d \<Rightarrow> Inr (dict_update (content sp) d))
      else Inl (Exception (''Unknown input for index_documents:'' @ index_documents @ ''.'')))"

definition Tfidf_init ::
  "nltk \<Rightarrow> libm \<Rightarrow> spider \<Rightarrow> string \<Rightarrow> (string \<times> string) list option \<Rightarrow> error + tfidf" where
  "Tfidf_init env lib sp index_documents new_documents =
     (case init_term_frequency lib (Tfidf_new sp) of
        Inl e \<Rightarrow> Inl e
      | Inr t \<Rightarrow>
          (case select_content sp index_documents new_documents of
             Inl e \<Rightarrow> Inl e
           | Inr c \<Rightarrow> insert_documents env c t))"

text \<open>
  \<^verbatim>\<open>value - search_text_vector\<close> on two one-dimensional numpy arrays: equal lengths subtract
  pointwise, an array of length one is broadcast, any other pair of lengths raises.
\<close>

definition np_sub :: "real list \<Rightarrow> real list \<Rightarrow> error + real list" where
  "np_sub a b =
     (if length a = length b then Inr (map2 (-) a b)
      else if length a = 1 then Inr (map (\<lambda>y. hd a - y) b)
      else if length b = 1 then Inr (map (\<lambda>x. x - hd b) a)
      else Inl ValueError)"

definition linalg_norm :: "real list \<Rightarrow> real" where
  "linalg_norm v = sqrt (sum_list (map (\<lambda>x. x\<^sup>2) v))"

text \<open>
  The scan of \<^verbatim>\<open>search\<close>; the pair is (\<^verbatim>\<open>best_match_document\<close>, \<^verbatim>\<open>best_match_distance\<close>).
  The \<^verbatim>\<open>verbose\<close> output does not change the result and is left out.
\<close>

fun search_loop ::
  "real list \<Rightarrow> (string \<times> real list) list \<Rightarrow> string \<times> real \<Rightarrow> error + string \<times> real" where
  "search_loop q [] best = Inr best"
| "search_loop q ((key, val) # rest) (doc, best) =
     (case np_sub val q of
        Inl e \<Rightarrow> Inl e
      | Inr d \<Rightarrow>
          (let distance = linalg_norm d
           in if distance < best then search_loop q rest (key, distance)
              else search_loop q rest (doc, best)))"

definition search_best :: "nltk \<Rightarrow> tfidf \<Rightarrow> string \<Rightarrow> error + string \<times> real" where
  "search_best env t search_text =
     (case create_word_vector env t search_text of
        Inl e \<Rightarrow> Inl e
      | Inr q \<Rightarrow> search_loop q (indexed_documents t) (''no document found'', 100))"

definition search :: "nltk \<Rightarrow> tfidf \<Rightarrow> string \<Rightarrow> error + string" where
  "search env t search_text =
     (case search_best env t search_text of
        Inl e \<Rightarrow> Inl e
      | Inr (doc, best) \<Rightarrow> Inr doc)"

section \<open>The terms of a text\<close>

text \<open>
  The tokens of a text that pass the filter of \<^verbatim>\<open>add_new_token\<close> (longer than one character
  and no stop word), and their stems in order of appearance: the terms the text contributes
  to a term index.
\<close>

definition surviving_tokens :: "nltk \<Rightarrow> spider \<Rightarrow> string \<Rightarrow> string list" where
  "surviving_tokens env s text =
     filter (\<lambda>token. 1 < length token \<and> token \<notin> set (stopwords s))
       (word_tokenize env text (language s))"

definition text_terms :: "nltk \<Rightarrow> spider \<Rightarrow> string \<Rightarrow> string list" where
  "text_terms env s text =
     (case stemmer s of
        None \<Rightarrow> []
      | Some st \<Rightarrow> map (stem env st) (surviving_tokens env s text))"

definition texts_terms :: "nltk \<Rightarrow> spider \<Rightarrow> string list \<Rightarrow> string list" where
  "texts_terms env s texts = concat (map (text_terms env s) texts)"

section \<open>The weight of a term\<close>

text \<open>
  The right-hand side \<^verbatim>\<open>math.log(total_count/term_index[word])\<close> of the assignment in the
  loop of \<^verbatim>\<open>init_term_frequency\<close>, for a term of count \<open>c\<close>.
\<close>

definition term_weight :: "libm \<Rightarrow> int \<Rightarrow> int \<Rightarrow> error + real" where
  "term_weight lib total_count c =
     (case py_truediv total_count c of
        Inl e \<Rightarrow> Inl e
      | Inr q \<Rightarrow> math_log lib q)"

section \<open>A small normaliser and corpus\<close>

text \<open>
  To run the model on concrete inputs its two parameters need values. \<open>sample_nltk\<close>
  splits a text at blanks, has one stop word per language (and, like NLTK's stop-word corpus,
  knows more languages than the two that \<^verbatim>\<open>Spider\<close> has a stemmer for) and stems nothing.
  \<open>sample_libm\<close> has the correctly rounded logarithm.

  \<^item> \<open>fresh_spider\<close> is \<^verbatim>\<open>Spider(language='english')\<close> and \<open>french_spider\<close> is
    \<^verbatim>\<open>Spider(language='french')\<close>.
  \<^item> \<open>sample_spider\<close> is \<open>fresh_spider\<close> with two documents in \<^verbatim>\<open>content\<close>, as after
    \<^verbatim>\<open>crawl\<close>; \<open>indexed_spider\<close> is what \<^verbatim>\<open>generate_term_index(['cat', 'emu', 'emu'])\<close>
    makes of it, and \<open>weighted_tfidf\<close> the \<^verbatim>\<open>Tfidf\<close> over it after \<^verbatim>\<open>init_term_frequency\<close>.
  \<^item> \<open>heavy_spider\<close> is \<open>fresh_spider\<close> after
    \<^verbatim>\<open>add_new_token('aa aa bb', count_value=10**50)\<close>, \<open>heavy_weight\<close> is the weight of its
    term \<^verbatim>\<open>'bb'\<close>, and \<open>heavy_tfidf\<close> is
    \<^verbatim>\<open>Tfidf(heavy_spider, index_documents='new', new_documents={'doc': 'bb'})\<close>.
  \<^item> \<open>huge_spider\<close> is \<open>fresh_spider\<close> after
    \<^verbatim>\<open>add_new_token('aa aa bb', count_value=10**400)\<close>.
\<close>

definition split_spaces :: "string \<Rightarrow> string list" where
  "split_spaces text =
     filter (\<lambda>w. w \<noteq> [])
       (foldr (\<lambda>c ws. if c = CHR '' '' then [] # ws else (c # hd ws) # tl ws) text [[]])"

definition sample_nltk :: nltk where
  "sample_nltk =
     \<lparr>word_tokenize = (\<lambda>text lang. split_spaces text),
      stopwords_words = (\<lambda>lang. if lang = ''english'' then Some [''the'']
                               else if lang = ''german'' then Some [''der'']
                               else if lang = ''french'' then Some [''le'']
                               else None),
      german_stem = (\<lambda>w. w),
      english_stem = (\<lambda>w. w)\<rparr>"

definition sample_libm :: libm where
  "sample_libm = \<lparr>libm_log = (\<lambda>x. float64_round (ln x))\<rparr>"

definition sample_spider :: spider where
  "sample_spider =
     \<lparr>corpus = ''data'', file_type = ''txt'',
      content = [(''doc1'', ''the cat sat''), (''doc2'', ''the dog ran cat'')],
      term_index = [], stopwords = [''the''], language = ''english'',
      stemmer = Some EnglishStemmer\<rparr>"

definition fresh_spider :: spider where
  "fresh_spider = sample_spider\<lparr>content := []\<rparr>"

definition french_spider :: spider where
  "french_spider =
     \<lparr>corpus = ''data'', file_type = ''txt'', content = [], term_index = [],
      stopwords = [''le''], language = ''french'', stemmer = None\<rparr>"

definition indexed_spider :: spider where
  "indexed_spider =
     sample_spider\<lparr>term_index := [(''cat'', 2), (''sat'', 1), (''dog'', 1), (''ran'', 1), (''emu'', 1)]\<rparr>"

definition weighted_tfidf :: tfidf where
  "weighted_tfidf =
     \<lparr>spider = indexed_spider,
      idf = [(''cat'', float64_round (ln 3)), (''sat'', float64_round (ln 6)),
             (''dog'', float64_round (ln 6)), (''ran'', float64_round (ln 6)),
             (''emu'', float64_round (ln 6))],
      indexed_documents = [],
      word_vector = [''cat'', ''sat'', ''dog'', ''ran'', ''emu'']\<rparr>"

definition heavy_spider :: spider where
  "heavy_spider =
     fresh_spider\<lparr>term_index :=
       [(''aa'', 100000000000000000000000000000000000000000000000001), (''bb'', 1)]\<rparr>"

definition heavy_weight :: real where
  "heavy_weight =
     float64_round (ln (float64_round 100000000000000000000000000000000000000000000000002))"

definition heavy_tfidf :: tfidf where
  "heavy_tfidf =
     \<lparr>spider = heavy_spider,
      idf = [(''aa'', 0), (''bb'', heavy_weight)],
      indexed_documents = [(''doc'', [0, heavy_weight])],
      word_vector = [''aa'', ''bb'']\<rparr>"

definition huge_spider :: spider where
  "huge_spider = fresh_spider\<lparr>term_index := [(''aa'', 10 ^ 400 + 1), (''bb'', 1)]\<rparr>"

section \<open>Rounding\<close>

lemma round_half_even_of_int: "round_half_even (real_of_int n) = n"
  by (simp add: round_half_even_def)

lemma round_half_even_near: "\<bar>x - real_of_int n\<bar> < 1 / 2 \<Longrightarrow> round_half_even x = n"
proof -
  assume a: "\<bar>x - real_of_int n\<bar> < 1 / 2"
  show ?thesis
  proof (cases "real_of_int n \<le> x")
    case True
    with a have "\<lfloor>x\<rfloor> = n" by (intro floor_unique) auto
    with a True show ?thesis by (simp add: round_half_even_def)
  next
    case False
    with a have f: "\<lfloor>x\<rfloor> = n - 1" by (intro floor_unique) auto
    from a False have "1 / 2 < x - real_of_int (n - 1)" by simp
    with f show ?thesis by (simp add: round_half_even_def)
  qed
qed

lemma round_half_even_ge: "real_of_int n \<le> x \<Longrightarrow> n \<le> round_half_even x"
proof -
  assume "real_of_int n \<le> x"
  then have "n \<le> \<lfloor>x\<rfloor>" by (simp add: le_floor_iff)
  then show ?thesis by (auto simp: round_half_even_def Let_def)
qed

lemma round_half_even_le: "x \<le> real_of_int n \<Longrightarrow> round_half_even x \<le> n"
proof -
  assume a: "x \<le> real_of_int n"
  show ?thesis
  proof (cases "x = real_of_int n")
    case True
    then show ?thesis by (simp add: round_half_even_of_int)
  next
    case False
    with a have "x < real_of_int n" by simp
    then have "\<lfloor>x\<rfloor> < n" by (simp add: floor_less_iff)
    then show ?thesis by (auto simp: round_half_even_def Let_def)
  qed
qed

lemma round_half_even_mono: "x \<le> y \<Longrightarrow> round_half_even x \<le> round_half_even y"
proof -
  assume xy: "x \<le> y"
  have fl: "\<lfloor>x\<rfloor> \<le> \<lfloor>y\<rfloor>" using xy by (rule floor_mono)
  show ?thesis
  proof (cases "\<lfloor>x\<rfloor> = \<lfloor>y\<rfloor>")
    case True
    with xy show ?thesis by (auto simp: round_half_even_def Let_def)
  next
    case False
    with fl have "\<lfloor>x\<rfloor> + 1 \<le> \<lfloor>y\<rfloor>" by simp
    moreover have "round_half_even x \<le> \<lfloor>x\<rfloor> + 1" by (auto simp: round_half_even_def Let_def)
    moreover have "\<lfloor>y\<rfloor> \<le> round_half_even y" by (auto simp: round_half_even_def Let_def)
    ultimately show ?thesis by linarith
  qed
qed

lemma round_half_even_tie: "even n \<Longrightarrow> round_half_even (real_of_int n + 1 / 2) = n"
proof -
  assume e: "even n"
  have "\<lfloor>real_of_int n + 1 / 2\<rfloor> = n" by (intro floor_unique) auto
  with e show ?thesis by (simp add: round_half_even_def)
qed

lemma float64_ulp_pos: "0 < float64_ulp x"
  by (simp add: float64_ulp_def)

lemma two_powr_nat: "0 \<le> k \<Longrightarrow> (2::real) powr real_of_int k = 2 ^ nat k"
  by (simp add: powr_int)

lemma two_powr_split: "(2::real) powr real_of_int (a + b) = 2 powr real_of_int a * 2 powr real_of_int b"
  by (simp add: powr_add)

lemma two_powr_mono: "a \<le> b \<Longrightarrow> (2::real) powr real_of_int a \<le> 2 powr real_of_int b"
  by (simp add: powr_mono)

lemma float64_exponent_lower: "- 1022 \<le> float64_exponent x"
  by (simp add: float64_exponent_def)

lemma abs_less_next_binade:
  assumes "x \<noteq> 0"
  shows "\<bar>x\<bar> < 2 powr real_of_int (float64_exponent x + 1)"
proof -
  from assms have pos: "0 < \<bar>x\<bar>" by simp
  have "\<lfloor>log 2 \<bar>x\<bar>\<rfloor> = \<lfloor>log 2 \<bar>x\<bar>\<rfloor>" ..
  with pos have "\<bar>x\<bar> < 2 powr real_of_int (\<lfloor>log 2 \<bar>x\<bar>\<rfloor> + 1)"
    using floor_log_eq_powr_iff [of "\<bar>x\<bar>" 2 "\<lfloor>log 2 \<bar>x\<bar>\<rfloor>"] by simp
  also have "\<dots> \<le> 2 powr real_of_int (float64_exponent x + 1)"
    by (rule two_powr_mono) (simp add: float64_exponent_def)
  finally show ?thesis .
qed

lemma binade_le_abs:
  assumes "x \<noteq> 0" and "- 1022 < float64_exponent x"
  shows "2 powr real_of_int (float64_exponent x) \<le> \<bar>x\<bar>"
proof -
  from assms have pos: "0 < \<bar>x\<bar>" by simp
  from assms(2) have e: "float64_exponent x = \<lfloor>log 2 \<bar>x\<bar>\<rfloor>"
    by (simp add: float64_exponent_def max_def split: if_splits)
  from pos show ?thesis
    using floor_log_eq_powr_iff [of "\<bar>x\<bar>" 2 "\<lfloor>log 2 \<bar>x\<bar>\<rfloor>"] by (simp add: e)
qed

lemma float64_exponent_mono:
  assumes "0 < x" and "x \<le> y"
  shows "float64_exponent x \<le> float64_exponent y"
proof -
  from assms have "log 2 \<bar>x\<bar> \<le> log 2 \<bar>y\<bar>" by simp
  then have "\<lfloor>log 2 \<bar>x\<bar>\<rfloor> \<le> \<lfloor>log 2 \<bar>y\<bar>\<rfloor>" by (rule floor_mono)
  then show ?thesis by (simp add: float64_exponent_def)
qed

lemma float64_exponent_eq:
  assumes "2 powr real_of_int e \<le> \<bar>x\<bar>" and "\<bar>x\<bar> < 2 powr real_of_int (e + 1)" and "- 1022 \<le> e"
  shows "float64_exponent x = e"
proof -
  have "0 < (2::real) powr real_of_int e" by simp
  with assms(1) have pos: "0 < \<bar>x\<bar>" by linarith
  from assms(1,2) have "\<lfloor>log 2 \<bar>x\<bar>\<rfloor> = e"
    using floor_log_eq_powr_iff [of "\<bar>x\<bar>" 2 e] pos by simp
  with assms(3) show ?thesis by (simp add: float64_exponent_def)
qed

lemma float64_exponent_minus: "float64_exponent (- x) = float64_exponent x"
  by (simp add: float64_exponent_def)

lemma float64_ulp_minus: "float64_ulp (- x) = float64_ulp x"
  by (simp add: float64_ulp_def float64_exponent_minus)

lemma float64_round_zero: "float64_round 0 = 0"
  by (simp add: float64_round_def)

lemma float64_round_minus: "float64_round (- x) = - float64_round x"
  by (simp add: float64_round_def float64_ulp_minus sgn_minus)

lemma float64_round_pos:
  "0 < x \<Longrightarrow> float64_round x = real_of_int (round_half_even (x / float64_ulp x)) * float64_ulp x"
  by (simp add: float64_round_def)

lemma float64_round_nonneg: "0 \<le> x \<Longrightarrow> 0 \<le> float64_round x"
proof -
  assume x: "0 \<le> x"
  have "0 \<le> \<bar>x\<bar> / float64_ulp x" using float64_ulp_pos [of x] by simp
  then have "0 \<le> round_half_even (\<bar>x\<bar> / float64_ulp x)"
    using round_half_even_ge [of 0] by simp
  with x float64_ulp_pos [of x] show ?thesis
    by (simp add: float64_round_def sgn_real_def)
qed

lemma ulp_times_53:
  "real_of_int (2 ^ 53) * float64_ulp x = 2 powr real_of_int (float64_exponent x + 1)"
proof -
  have "(2::real) ^ 53 = 2 powr 53" by simp
  then have "(2::real) ^ 53 * 2 powr real_of_int (float64_exponent x - 52) =
      2 powr (53 + real_of_int (float64_exponent x - 52))"
    by (simp only: powr_add)
  also have "53 + real_of_int (float64_exponent x - 52) = real_of_int (float64_exponent x + 1)"
    by simp
  finally show ?thesis by (simp add: float64_ulp_def)
qed

lemma ulp_times_52:
  "real_of_int (2 ^ 52) * float64_ulp x = 2 powr real_of_int (float64_exponent x)"
proof -
  have "(2::real) ^ 52 = 2 powr 52" by simp
  then have "(2::real) ^ 52 * 2 powr real_of_int (float64_exponent x - 52) =
      2 powr (52 + real_of_int (float64_exponent x - 52))"
    by (simp only: powr_add)
  also have "52 + real_of_int (float64_exponent x - 52) = real_of_int (float64_exponent x)"
    by simp
  finally show ?thesis by (simp add: float64_ulp_def)
qed

text \<open>A positive number rounds into the closed binade it lies in.\<close>

lemma float64_round_upper:
  assumes "0 < x"
  shows "float64_round x \<le> 2 powr real_of_int (float64_exponent x + 1)"
proof -
  let ?u = "float64_ulp x"
  from assms have "x \<noteq> 0" by simp
  from abs_less_next_binade [OF this] assms
  have "x < 2 powr real_of_int (float64_exponent x + 1)" by simp
  then have "x < real_of_int (2 ^ 53) * ?u" by (simp only: ulp_times_53)
  then have "x / ?u \<le> real_of_int (2 ^ 53)"
    using float64_ulp_pos [of x] by (simp add: pos_divide_le_eq)
  then have "round_half_even (x / ?u) \<le> 2 ^ 53" by (rule round_half_even_le)
  then have "real_of_int (round_half_even (x / ?u)) \<le> real_of_int (2 ^ 53)"
    by (simp only: of_int_le_iff)
  then have "real_of_int (round_half_even (x / ?u)) * ?u \<le> real_of_int (2 ^ 53) * ?u"
    using float64_ulp_pos [of x] by (simp only: mult_le_cancel_right_pos)
  then show ?thesis by (simp only: ulp_times_53 float64_round_pos [OF assms])
qed

lemma float64_round_lower:
  assumes "0 < x" and "- 1022 < float64_exponent x"
  shows "2 powr real_of_int (float64_exponent x) \<le> float64_round x"
proof -
  let ?u = "float64_ulp x"
  from assms have "x \<noteq> 0" by simp
  from binade_le_abs [OF \<open>x \<noteq> 0\<close> assms(2)] assms(1)
  have "2 powr real_of_int (float64_exponent x) \<le> x" by simp
  then have "real_of_int (2 ^ 52) * ?u \<le> x" by (simp only: ulp_times_52)
  then have "real_of_int (2 ^ 52) \<le> x / ?u"
    using float64_ulp_pos [of x] by (simp add: pos_le_divide_eq)
  then have "2 ^ 52 \<le> round_half_even (x / ?u)" by (rule round_half_even_ge)
  then have "real_of_int (2 ^ 52) \<le> real_of_int (round_half_even (x / ?u))"
    by (simp only: of_int_le_iff)
  then have "real_of_int (2 ^ 52) * ?u \<le> real_of_int (round_half_even (x / ?u)) * ?u"
    using float64_ulp_pos [of x] by (simp only: mult_le_cancel_right_pos)
  then show ?thesis by (simp only: ulp_times_52 float64_round_pos [OF assms(1)])
qed

lemma float64_round_mono_pos:
  assumes "0 < x" and "x \<le> y"
  shows "float64_round x \<le> float64_round y"
proof -
  from assms have y: "0 < y" by simp
  from float64_exponent_mono [OF assms] have le: "float64_exponent x \<le> float64_exponent y" .
  show ?thesis
  proof (cases "float64_exponent x = float64_exponent y")
    case True
    then have u: "float64_ulp x = float64_ulp y" by (simp add: float64_ulp_def)
    from assms(2) have "x / float64_ulp y \<le> y / float64_ulp y"
      using float64_ulp_pos [of y] by (simp add: divide_right_mono)
    then have "round_half_even (x / float64_ulp y) \<le> round_half_even (y / float64_ulp y)"
      by (rule round_half_even_mono)
    then have "real_of_int (round_half_even (x / float64_ulp y)) * float64_ulp y \<le>
               real_of_int (round_half_even (y / float64_ulp y)) * float64_ulp y"
      using float64_ulp_pos [of y] by (simp only: mult_le_cancel_right_pos of_int_le_iff)
    then show ?thesis by (simp only: float64_round_pos [OF assms(1)] float64_round_pos [OF y] u)
  next
    case False
    with le have lt: "float64_exponent x + 1 \<le> float64_exponent y" by simp
    with float64_exponent_lower [of x] have "- 1022 < float64_exponent y" by linarith
    from float64_round_lower [OF y this]
    have "2 powr real_of_int (float64_exponent y) \<le> float64_round y" .
    moreover from lt have "(2::real) powr real_of_int (float64_exponent x + 1) \<le>
        2 powr real_of_int (float64_exponent y)" by (rule two_powr_mono)
    moreover note float64_round_upper [OF assms(1)]
    ultimately show ?thesis by linarith
  qed
qed

lemma float64_round_mono:
  assumes "x \<le> y"
  shows "float64_round x \<le> float64_round y"
proof -
  consider "0 < x" | "x \<le> 0" "0 \<le> y" | "y < 0" by linarith
  then show ?thesis
  proof cases
    case 1
    then show ?thesis using assms by (rule float64_round_mono_pos)
  next
    case 2
    then have "0 \<le> float64_round (- x)" by (intro float64_round_nonneg) simp
    then have "float64_round x \<le> 0" by (simp add: float64_round_minus)
    moreover from 2 have "0 \<le> float64_round y" by (intro float64_round_nonneg)
    ultimately show ?thesis by linarith
  next
    case 3
    then have "0 < - y" by simp
    moreover from assms have "- y \<le> - x" by simp
    ultimately have "float64_round (- y) \<le> float64_round (- x)" by (rule float64_round_mono_pos)
    then show ?thesis by (simp add: float64_round_minus)
  qed
qed

lemma mantissa_bounds:
  assumes "0 < x"
  shows "0 \<le> round_half_even (x / float64_ulp x) \<and> round_half_even (x / float64_ulp x) \<le> 2 ^ 53"
proof -
  let ?u = "float64_ulp x"
  from assms have "x \<noteq> 0" by simp
  from abs_less_next_binade [OF this] assms
  have "x < 2 powr real_of_int (float64_exponent x + 1)" by simp
  then have "x < real_of_int (2 ^ 53) * ?u" by (simp only: ulp_times_53)
  then have "x / ?u \<le> real_of_int (2 ^ 53)"
    using float64_ulp_pos [of x] by (simp add: pos_divide_le_eq)
  then have "round_half_even (x / ?u) \<le> 2 ^ 53" by (rule round_half_even_le)
  moreover have "real_of_int 0 \<le> x / ?u" using assms float64_ulp_pos [of x] by simp
  then have "0 \<le> round_half_even (x / ?u)" by (rule round_half_even_ge)
  ultimately show ?thesis by simp
qed

lemma is_float64_minus: "is_float64 (- x) = is_float64 x"
proof
  assume "is_float64 (- x)"
  then obtain m k where "- x = real_of_int m * 2 powr real_of_int k" "\<bar>m\<bar> < 2 ^ 53" "- 1074 \<le> k"
    by (auto simp: is_float64_def)
  then have "x = real_of_int (- m) * 2 powr real_of_int k \<and> \<bar>- m\<bar> < 2 ^ 53 \<and> - 1074 \<le> k"
    by simp
  then show "is_float64 x" unfolding is_float64_def by blast
next
  assume "is_float64 x"
  then obtain m k where "x = real_of_int m * 2 powr real_of_int k" "\<bar>m\<bar> < 2 ^ 53" "- 1074 \<le> k"
    by (auto simp: is_float64_def)
  then have "- x = real_of_int (- m) * 2 powr real_of_int k \<and> \<bar>- m\<bar> < 2 ^ 53 \<and> - 1074 \<le> k"
    by simp
  then show "is_float64 (- x)" unfolding is_float64_def by blast
qed

lemma is_float64_zero: "is_float64 0"
  unfolding is_float64_def by (rule exI [of _ 0], rule exI [of _ 0]) simp

lemma is_float64_of_int: "\<bar>n\<bar> < 2 ^ 53 \<Longrightarrow> is_float64 (real_of_int n)"
  unfolding is_float64_def by (rule exI [of _ n], rule exI [of _ 0]) simp

lemma is_float64_two_powr: "- 1074 \<le> k \<Longrightarrow> is_float64 (2 powr real_of_int k)"
  unfolding is_float64_def by (rule exI [of _ 1], rule exI [of _ k]) simp

lemma is_float64_round_pos:
  assumes "0 < x"
  shows "is_float64 (float64_round x)"
proof -
  let ?n = "round_half_even (x / float64_ulp x)"
  from mantissa_bounds [OF assms] have n: "0 \<le> ?n" "?n \<le> 2 ^ 53" by simp_all
  have fl: "float64_round x = real_of_int ?n * float64_ulp x" by (rule float64_round_pos [OF assms])
  show ?thesis
  proof (cases "?n = 2 ^ 53")
    case True
    then have "float64_round x = real_of_int (2 ^ 53) * float64_ulp x" by (simp only: fl)
    then have "float64_round x = 2 powr real_of_int (float64_exponent x + 1)"
      by (simp only: ulp_times_53)
    moreover have "- 1074 \<le> float64_exponent x + 1" using float64_exponent_lower [of x] by simp
    then have "is_float64 (2 powr real_of_int (float64_exponent x + 1))"
      by (rule is_float64_two_powr)
    ultimately show ?thesis by (simp only:)
  next
    case False
    with n have "\<bar>?n\<bar> < 2 ^ 53" by simp
    moreover have "- 1074 \<le> float64_exponent x - 52" using float64_exponent_lower [of x] by simp
    moreover have "float64_round x = real_of_int ?n * 2 powr real_of_int (float64_exponent x - 52)"
      by (simp only: fl float64_ulp_def)
    ultimately show ?thesis unfolding is_float64_def by blast
  qed
qed

lemma is_float64_round: "is_float64 (float64_round x)"
proof -
  consider "0 < x" | "x = 0" | "x < 0" by linarith
  then show ?thesis
  proof cases
    case 1
    then show ?thesis by (rule is_float64_round_pos)
  next
    case 2
    then show ?thesis by (simp add: float64_round_zero is_float64_zero)
  next
    case 3
    then have "is_float64 (float64_round (- x))" by (intro is_float64_round_pos) simp
    then show ?thesis by (simp add: float64_round_minus is_float64_minus)
  qed
qed

lemma float64_round_fixed_pos:
  assumes x: "x = real_of_int m * 2 powr real_of_int k" and m: "0 < m" "m < 2 ^ 53"
      and k: "- 1074 \<le> k"
  shows "float64_round x = x"
proof -
  let ?e = "float64_exponent x"
  from x m have pos: "0 < x" by simp
  have "real_of_int m < real_of_int (2 ^ 53)" using m(2) by (simp only: of_int_less_iff)
  then have "x < real_of_int (2 ^ 53) * 2 powr real_of_int k" by (simp add: x)
  also have "real_of_int (2 ^ 53) * 2 powr real_of_int k = 2 powr real_of_int (k + 53)"
  proof -
    have "(2::real) ^ 53 = 2 powr 53" by simp
    then have "(2::real) ^ 53 * 2 powr real_of_int k = 2 powr (53 + real_of_int k)"
      by (simp only: powr_add)
    also have "53 + real_of_int k = real_of_int (k + 53)" by simp
    finally show ?thesis by simp
  qed
  finally have upper: "x < 2 powr real_of_int (k + 53)" .
  have e: "?e \<le> k + 52"
  proof (cases "- 1022 < ?e")
    case True
    from pos have "x \<noteq> 0" by simp
    from binade_le_abs [OF this True] pos have "2 powr real_of_int ?e \<le> x" by simp
    with upper have "(2::real) powr real_of_int ?e < 2 powr real_of_int (k + 53)" by linarith
    then have "real_of_int ?e < real_of_int (k + 53)" by (simp only: powr_less_cancel_iff)
    then show ?thesis by simp
  next
    case False
    with float64_exponent_lower [of x] have "?e = - 1022" by simp
    with k show ?thesis by simp
  qed
  define j where "j = nat (k - (?e - 52))"
  from e have kj: "k = (?e - 52) + int j" by (simp add: j_def)
  have "2 powr real_of_int k = 2 powr real_of_int (?e - 52) * 2 powr real_of_int (int j)"
    using two_powr_split [of "?e - 52" "int j"] kj by simp
  also have "(2::real) powr real_of_int (int j) = 2 ^ j" using two_powr_nat [of "int j"] by simp
  finally have p: "2 powr real_of_int k = float64_ulp x * 2 ^ j" by (simp add: float64_ulp_def)
  note x
  also have "real_of_int m * 2 powr real_of_int k = real_of_int m * (float64_ulp x * 2 ^ j)"
    by (simp only: p)
  also have "\<dots> = real_of_int (m * 2 ^ j) * float64_ulp x" by simp
  finally have xu: "x = real_of_int (m * 2 ^ j) * float64_ulp x" .
  then have "x / float64_ulp x = real_of_int (m * 2 ^ j)"
    using float64_ulp_pos [of x] by (simp add: field_simps)
  then have "round_half_even (x / float64_ulp x) = m * 2 ^ j"
    by (simp only: round_half_even_of_int)
  then have "float64_round x = real_of_int (m * 2 ^ j) * float64_ulp x"
    by (simp only: float64_round_pos [OF pos])
  with xu show ?thesis by simp
qed

lemma float64_round_fixed:
  assumes "is_float64 x"
  shows "float64_round x = x"
proof -
  from assms obtain m k where x: "x = real_of_int m * 2 powr real_of_int k"
    and m: "\<bar>m\<bar> < 2 ^ 53" and k: "- 1074 \<le> k"
    by (auto simp: is_float64_def)
  consider "0 < m" | "m = 0" | "m < 0" by linarith
  then show ?thesis
  proof cases
    case 1
    with m have "m < 2 ^ 53" by simp
    from float64_round_fixed_pos [OF x 1 this k] show ?thesis .
  next
    case 2
    with x show ?thesis by (simp add: float64_round_zero)
  next
    case 3
    from x have x': "- x = real_of_int (- m) * 2 powr real_of_int k" by simp
    from 3 m have "0 < - m" "- m < 2 ^ 53" by simp_all
    from float64_round_fixed_pos [OF x' this k] show ?thesis by (simp add: float64_round_minus)
  qed
qed

lemma float64_round_idem: "float64_round (float64_round x) = float64_round x"
  by (rule float64_round_fixed) (rule is_float64_round)

lemma float64_round_of_int: "\<bar>n\<bar> < 2 ^ 53 \<Longrightarrow> float64_round (real_of_int n) = real_of_int n"
  by (rule float64_round_fixed) (rule is_float64_of_int)

lemma float64_round_two_powr:
  "- 1074 \<le> k \<Longrightarrow> float64_round (2 powr real_of_int k) = 2 powr real_of_int k"
  by (rule float64_round_fixed) (rule is_float64_two_powr)



section \<open>Division and logarithm\<close>

lemma two_powr_neg: "(2::real) powr real_of_int (- int j) = 1 / 2 ^ j"
  by (simp add: powr_minus powr_realpow inverse_eq_divide)

lemma float64_round_inverse_power:
  assumes "j \<le> 1074"
  shows "float64_round (1 / 2 ^ j) = 1 / 2 ^ j"
proof -
  from assms have "- 1074 \<le> - int j" by simp
  from float64_round_two_powr [OF this] show ?thesis by (simp only: two_powr_neg)
qed

lemma float64_round_one: "float64_round 1 = 1"
  using float64_round_of_int [of 1] by simp

lemma float64_round_ge_one: "1 \<le> x \<Longrightarrow> 1 \<le> float64_round x"
  using float64_round_mono [of 1 x] by (simp add: float64_round_one)

lemma float64_round_le_one: "x \<le> 1 \<Longrightarrow> float64_round x \<le> 1"
  using float64_round_mono [of x 1] by (simp add: float64_round_one)

lemma is_float64_max: "is_float64 float64_max"
proof -
  have "float64_max = real_of_int (2 ^ 53 - 1) * 2 powr real_of_int 971"
    using two_powr_nat [of 971] by (simp add: float64_max_def)
  moreover have "\<bar>2 ^ 53 - 1 :: int\<bar> < 2 ^ 53" by simp
  moreover have "- 1074 \<le> (971::int)" by simp
  ultimately show ?thesis unfolding is_float64_def by blast
qed

lemma float64_max_less: "float64_max < 2 ^ 1024"
  by (simp add: float64_max_def)

lemma float64_max_pos: "0 < float64_max"
  by (simp add: float64_max_def)

lemma float64_round_le_max: "x \<le> float64_max \<Longrightarrow> float64_round x \<le> float64_max"
  using float64_round_mono [of x float64_max] float64_round_fixed [OF is_float64_max] by simp

lemma py_truediv_zero: "py_truediv a 0 = Inl ZeroDivisionError"
  by (simp add: py_truediv_def)

lemma py_truediv_Inl:
  "py_truediv a b = Inl e \<Longrightarrow> (b = 0 \<and> e = ZeroDivisionError) \<or> (b \<noteq> 0 \<and> e = OverflowError)"
  by (auto simp: py_truediv_def Let_def split: if_splits)

lemma py_truediv_Inr:
  "py_truediv a b = Inr q \<Longrightarrow>
   b \<noteq> 0 \<and> q = float64_round (real_of_int a / real_of_int b) \<and> \<bar>q\<bar> < 2 ^ 1024 \<and> is_float64 q"
  by (auto simp: py_truediv_def Let_def is_float64_round split: if_splits)

lemma py_truediv_in_range:
  assumes "b \<noteq> 0" and "\<bar>real_of_int a / real_of_int b\<bar> \<le> float64_max"
  shows "py_truediv a b = Inr (float64_round (real_of_int a / real_of_int b))"
proof -
  let ?x = "real_of_int a / real_of_int b"
  from assms(2) have "?x \<le> float64_max" "- ?x \<le> float64_max" by linarith+
  then have "float64_round ?x \<le> float64_max" "float64_round (- ?x) \<le> float64_max"
    by (simp_all only: float64_round_le_max)
  then have "\<bar>float64_round ?x\<bar> \<le> float64_max" by (simp add: float64_round_minus abs_le_iff)
  with float64_max_less have "\<not> 2 ^ 1024 \<le> \<bar>float64_round ?x\<bar>" by linarith
  with assms(1) show ?thesis by (simp add: py_truediv_def Let_def)
qed

lemma py_truediv_exact:
  assumes "b \<noteq> 0" and "a = n * b" and "\<bar>n\<bar> < 2 ^ 53"
  shows "py_truediv a b = Inr (real_of_int n)"
proof -
  from assms(1,2) have q: "real_of_int a / real_of_int b = real_of_int n" by simp
  have r: "float64_round (real_of_int n) = real_of_int n" using assms(3) by (rule float64_round_of_int)
  from assms(3) have "real_of_int \<bar>n\<bar> < real_of_int (2 ^ 53)" by (simp only: of_int_less_iff)
  then have "\<bar>real_of_int n\<bar> < 2 ^ 53" by simp
  moreover have "(2::real) ^ 53 \<le> 2 ^ 1024" by simp
  ultimately have "\<not> 2 ^ 1024 \<le> \<bar>real_of_int n\<bar>" by linarith
  with assms(1) show ?thesis by (simp add: py_truediv_def Let_def q r)
qed

lemma py_truediv_same: "c \<noteq> 0 \<Longrightarrow> py_truediv c c = Inr 1"
  using py_truediv_exact [of c c 1] by simp

lemma py_truediv_ge_one:
  assumes "py_truediv a b = Inr q" and "0 < b" and "b \<le> a"
  shows "1 \<le> q"
proof -
  from assms(2,3) have "1 \<le> real_of_int a / real_of_int b" by simp
  then have "1 \<le> float64_round (real_of_int a / real_of_int b)" by (rule float64_round_ge_one)
  with py_truediv_Inr [OF assms(1)] show ?thesis by simp
qed

lemma py_truediv_nonneg:
  assumes "py_truediv a b = Inr q" and "0 \<le> a" and "0 \<le> b"
  shows "0 \<le> q"
proof -
  from assms(2,3) have "0 \<le> real_of_int a / real_of_int b" by simp
  then have "0 \<le> float64_round (real_of_int a / real_of_int b)" by (rule float64_round_nonneg)
  with py_truediv_Inr [OF assms(1)] show ?thesis by simp
qed

lemma py_truediv_succeeds:
  assumes "0 < b" and "b \<le> a" and "real_of_int a \<le> float64_max"
  shows "\<exists>q. py_truediv a b = Inr q \<and> 1 \<le> q"
proof -
  from assms(1,2) have "0 \<le> real_of_int a / real_of_int b" by simp
  moreover from assms(1) have "real_of_int a / real_of_int b \<le> real_of_int a / 1"
    using assms(2) by (intro divide_left_mono) simp_all
  ultimately have "\<bar>real_of_int a / real_of_int b\<bar> \<le> float64_max" using assms(3) by simp
  moreover from assms(1) have "b \<noteq> 0" by simp
  ultimately have run: "py_truediv a b = Inr (float64_round (real_of_int a / real_of_int b))"
    by (intro py_truediv_in_range)
  from py_truediv_ge_one [OF run assms(1,2)] run show ?thesis by simp
qed

lemma py_truediv_rate:
  assumes "0 \<le> a" and "a \<le> b" and "b \<noteq> 0"
  shows "\<exists>r. py_truediv a b = Inr r \<and> 0 \<le> r \<and> r \<le> 1"
proof -
  let ?x = "real_of_int a / real_of_int b"
  from assms have b: "0 < b" by simp
  with assms have x: "0 \<le> ?x" "?x \<le> 1" by simp_all
  have "(1::real) \<le> float64_max" by (simp add: float64_max_def)
  with x have "\<bar>?x\<bar> \<le> float64_max" by simp
  with assms(3) have run: "py_truediv a b = Inr (float64_round ?x)" by (intro py_truediv_in_range)
  from x have "0 \<le> float64_round ?x" "float64_round ?x \<le> 1"
    by (simp_all add: float64_round_nonneg float64_round_le_one)
  with run show ?thesis by simp
qed

lemma math_log_Inl: "math_log lib x = Inl e \<Longrightarrow> e = ValueError \<and> x \<le> 0"
  by (auto simp: math_log_def split: if_splits)

lemma math_log_Inr: "math_log lib x = Inr w \<Longrightarrow> 0 < x \<and> w = libm_log lib x"
  by (auto simp: math_log_def split: if_splits)

lemma math_log_pos: "0 < x \<Longrightarrow> math_log lib x = Inr (libm_log lib x)"
  by (simp add: math_log_def)

lemma log_faithful_float: "log_faithful lib \<Longrightarrow> 0 < x \<Longrightarrow> is_float64 (libm_log lib x)"
  by (simp add: log_faithful_def)

lemma log_faithful_lower:
  "log_faithful lib \<Longrightarrow> 0 < x \<Longrightarrow> is_float64 f \<Longrightarrow> f \<le> ln x \<Longrightarrow> f \<le> libm_log lib x"
  by (simp add: log_faithful_def)



lemma log_faithful_nonneg:
  assumes "log_faithful lib" and "1 \<le> x"
  shows "0 \<le> libm_log lib x"
proof -
  from assms(2) have "0 < x" "0 \<le> ln x" by simp_all
  with log_faithful_lower [OF assms(1) _ is_float64_zero] show ?thesis by blast
qed



text \<open>The correctly rounded logarithm is one of the functions the parameter stands for.\<close>

lemma sample_libm_log: "libm_log sample_libm x = float64_round (ln x)"
  by (simp add: sample_libm_def)

lemma sample_libm_faithful: "log_faithful sample_libm"
  unfolding log_faithful_def
proof (intro allI impI conjI)
  fix x :: real
  show "is_float64 (libm_log sample_libm x)" by (simp add: sample_libm_log is_float64_round)
next
  fix x f :: real
  assume f: "is_float64 f" and le: "f \<le> ln x"
  from f have "float64_round f = f" by (rule float64_round_fixed)
  moreover from le have "float64_round f \<le> float64_round (ln x)" by (rule float64_round_mono)
  ultimately show "f \<le> libm_log sample_libm x" by (simp add: sample_libm_log)
next
  fix x f :: real
  assume f: "is_float64 f" and le: "ln x \<le> f"
  from f have "float64_round f = f" by (rule float64_round_fixed)
  moreover from le have "float64_round (ln x) \<le> float64_round f" by (rule float64_round_mono)
  ultimately show "libm_log sample_libm x \<le> f" by (simp add: sample_libm_log)
qed

text \<open>A quotient within half a unit in the last place of 1 rounds to 1.\<close>

lemma float64_round_near_one:
  assumes "1 \<le> x" and "x \<le> 1 + 1 / 2 ^ 53"
  shows "float64_round x = 1"
proof -
  have e: "float64_exponent x = 0"
  proof (rule float64_exponent_eq)
    show "2 powr real_of_int 0 \<le> \<bar>x\<bar>" using assms(1) by simp
    have "x < 2" using assms(2) by (simp add: field_simps)
    then show "\<bar>x\<bar> < 2 powr real_of_int (0 + 1)" using assms(1) by simp
    show "- 1022 \<le> (0::int)" by simp
  qed
  have u: "float64_ulp x = 1 / 2 ^ 52"
    using two_powr_neg [of 52] by (simp add: float64_ulp_def e)
  from assms(1) have pos: "0 < x" by simp
  from assms(2) have "x / float64_ulp x \<le> real_of_int (2 ^ 52) + 1 / 2" by (simp add: u field_simps)
  then have "round_half_even (x / float64_ulp x) \<le> round_half_even (real_of_int (2 ^ 52) + 1 / 2)"
    by (rule round_half_even_mono)
  also have "\<dots> = 2 ^ 52" by (rule round_half_even_tie) simp
  finally have "real_of_int (round_half_even (x / float64_ulp x)) \<le> real_of_int (2 ^ 52)"
    by (simp only: of_int_le_iff)
  then have "real_of_int (round_half_even (x / float64_ulp x)) * float64_ulp x \<le>
      real_of_int (2 ^ 52) * float64_ulp x"
    using float64_ulp_pos [of x] by (simp only: mult_le_cancel_right_pos)
  then have "float64_round x \<le> 1" by (simp add: float64_round_pos [OF pos] u)
  with float64_round_ge_one [OF assms(1)] show ?thesis by simp
qed

section \<open>Dictionaries and sums\<close>

lemma update_fresh: "k \<notin> fst ` set al \<Longrightarrow> AList.update k v al = al @ [(k, v)]"
  by (induction al) auto

lemma set_alist_update_subset: "set (AList.update k v al) \<subseteq> insert (k, v) (set al)"
  by (induction al) auto

lemma dict_update_distinct: "distinct (map fst (d @ xs)) \<Longrightarrow> dict_update d xs = d @ xs"
proof (induction xs arbitrary: d)
  case Nil
  then show ?case by (simp add: dict_update_def)
next
  case (Cons x xs)
  obtain k v where x: "x = (k, v)" by (cases x)
  from Cons.prems have fresh: "k \<notin> fst ` set d" by (auto simp: x)
  from Cons.prems have "distinct (map fst ((d @ [(k, v)]) @ xs))" by (simp add: x)
  then have "dict_update (d @ [(k, v)]) xs = (d @ [(k, v)]) @ xs" by (rule Cons.IH)
  then show ?case by (simp add: dict_update_def x update_fresh [OF fresh])
qed

lemma dict_of_items_distinct: "distinct (map fst xs) \<Longrightarrow> dict_of_items xs = xs"
  using dict_update_distinct [of "[]" xs] by (simp add: dict_of_items_def)

lemma distinct_fst_sort_key: "distinct (map fst xs) \<Longrightarrow> distinct (map fst (sort_key f xs))"
  by (simp add: distinct_map)

lemma get_index_dictionary_sorted:
  "distinct (map fst (term_index s)) \<Longrightarrow>
   get_index_dictionary True s = sort_key (\<lambda>(k, v). - v) (term_index s)"
  by (simp add: get_index_dictionary_def dict_of_items_distinct distinct_fst_sort_key)

lemma sum_list_snd_sort_key: "sum_list (map snd (sort_key f xs)) = sum_list (map snd (xs :: ('a \<times> int) list))"
proof -
  have "mset (map snd (sort_key f xs)) = mset (map snd xs)" by simp
  then show ?thesis by (metis sum_mset_sum_list)
qed

lemma map_of_sort_key:
  "distinct (map fst xs) \<Longrightarrow> map_of (sort_key f xs) = map_of xs"
  by (simp add: map_of_inject_set distinct_fst_sort_key)

lemma member_le_sum_list_int:
  "(\<forall>x\<in>set xs. (0::int) \<le> x) \<Longrightarrow> x \<in> set xs \<Longrightarrow> x \<le> sum_list xs"
proof (induction xs)
  case Nil
  then show ?case by simp
next
  case (Cons y ys)
  then have "0 \<le> sum_list ys" by (simp add: sum_list_nonneg)
  with Cons show ?case by auto
qed

lemma sum_list_pos_int:
  "xs \<noteq> [] \<Longrightarrow> \<forall>x\<in>set xs. (1::int) \<le> x \<Longrightarrow> 1 \<le> sum_list xs"
proof (induction xs)
  case Nil
  then show ?case by simp
next
  case (Cons x xs)
  then have "1 \<le> x" by simp
  moreover from Cons.prems have "0 \<le> sum_list xs" by (intro sum_list_nonneg) auto
  ultimately show ?case by simp
qed

lemma list_index_Some: "x \<in> set xs \<Longrightarrow> \<exists>i. list_index xs x = Some i"
  by (induction xs) auto

section \<open>The term index\<close>

lemma Spider_init_Inr:
  "Spider_init env c f lang = Inr ns \<Longrightarrow>
   term_index ns = [] \<and> language ns = lang \<and> stopwords_words env lang = Some (stopwords ns) \<and>
   stemmer ns = (if lang = ''german'' then Some GermanStemmer
                 else if lang = ''english'' then Some EnglishStemmer else None)"
  by (auto simp: Spider_init_def split: option.splits)

lemma add_new_token_loop_skip:
  assumes "\<not> (1 < length token \<and> token \<notin> set (stopwords s))"
  shows "add_new_token_loop env cv (token # toks) s = add_new_token_loop env cv toks s"
  unfolding add_new_token_loop.simps using assms by (rule if_not_P)

lemma add_new_token_loop_take:
  assumes "1 < length token \<and> token \<notin> set (stopwords s)" and "stemmer s = Some st"
  shows "add_new_token_loop env cv (token # toks) s =
         add_new_token_loop env cv toks
           (s\<lparr>term_index :=
                AList.update (stem env st token)
                  (case map_of (term_index s) (stem env st token) of None \<Rightarrow> 1 | Some c \<Rightarrow> c + cv)
                  (term_index s)\<rparr>)"
  using assms by (simp add: Let_def split: option.splits)

lemma add_new_token_loop_fields:
  "add_new_token_loop env cv toks s = Inr s' \<Longrightarrow>
   stopwords s' = stopwords s \<and> language s' = language s \<and> stemmer s' = stemmer s \<and>
   content s' = content s \<and> corpus s' = corpus s \<and> file_type s' = file_type s"
  by (induction toks arbitrary: s) (auto simp: Let_def split: if_splits option.splits)

lemma add_new_token_loop_succeeds:
  "stemmer s = Some st \<Longrightarrow> \<exists>s'. add_new_token_loop env cv toks s = Inr s'"
  by (induction toks arbitrary: s) (auto simp: Let_def split: option.splits)

lemma add_new_token_loop_no_survivor:
  "filter (\<lambda>token. 1 < length token \<and> token \<notin> set (stopwords s)) toks = [] \<Longrightarrow>
   add_new_token_loop env cv toks s = Inr s"
  by (induction toks) (auto split: if_splits simp: add_new_token_loop_skip)

lemma add_new_token_loop_seed:
  "stemmer s = Some st \<Longrightarrow> add_new_token_loop env 0 toks s = Inr s' \<Longrightarrow>
   map_of (term_index s') k =
     (case map_of (term_index s) k of
        Some c \<Rightarrow> Some c
      | None \<Rightarrow>
          if k \<in> stem env st ` set (filter (\<lambda>token. 1 < length token \<and> token \<notin> set (stopwords s)) toks)
          then Some 1 else None)"
proof (induction toks arbitrary: s)
  case Nil
  then show ?case by (simp split: option.splits)
next
  case (Cons token toks)
  show ?case
  proof (cases "1 < length token \<and> token \<notin> set (stopwords s)")
    case False
    from Cons.prems(2) have "add_new_token_loop env 0 toks s = Inr s'"
      by (simp only: add_new_token_loop_skip [OF False])
    from Cons.IH [OF Cons.prems(1) this] False show ?thesis by auto
  next
    case True
    let ?tok = "stem env st token"
    let ?v = "case map_of (term_index s) ?tok of None \<Rightarrow> 1 | Some c \<Rightarrow> c + 0"
    let ?s1 = "s\<lparr>term_index := AList.update ?tok ?v (term_index s)\<rparr>"
    from Cons.prems(2) have run: "add_new_token_loop env 0 toks ?s1 = Inr s'"
      by (simp only: add_new_token_loop_take [OF True Cons.prems(1)])
    have st1: "stemmer ?s1 = Some st" using Cons.prems(1) by simp
    from Cons.IH [OF st1 run] True show ?thesis
      by (auto simp: update_conv' split: option.splits if_splits)
  qed
qed

lemma add_new_token_loop_keys:
  "stemmer s = Some st \<Longrightarrow> add_new_token_loop env cv toks s = Inr s' \<Longrightarrow>
   fst ` set (term_index s') =
     fst ` set (term_index s) \<union>
     stem env st ` set (filter (\<lambda>token. 1 < length token \<and> token \<notin> set (stopwords s)) toks)"
proof (induction toks arbitrary: s)
  case Nil
  then show ?case by simp
next
  case (Cons token toks)
  show ?case
  proof (cases "1 < length token \<and> token \<notin> set (stopwords s)")
    case False
    from Cons.prems(2) have "add_new_token_loop env cv toks s = Inr s'"
      by (simp only: add_new_token_loop_skip [OF False])
    from Cons.IH [OF Cons.prems(1) this] False show ?thesis by auto
  next
    case True
    let ?tok = "stem env st token"
    let ?v = "case map_of (term_index s) ?tok of None \<Rightarrow> 1 | Some c \<Rightarrow> c + cv"
    let ?s1 = "s\<lparr>term_index := AList.update ?tok ?v (term_index s)\<rparr>"
    from Cons.prems(2) have run: "add_new_token_loop env cv toks ?s1 = Inr s'"
      by (simp only: add_new_token_loop_take [OF True Cons.prems(1)])
    have st1: "stemmer ?s1 = Some st" using Cons.prems(1) by simp
    from Cons.IH [OF st1 run] True show ?thesis
      by (auto simp: dom_update)
  qed
qed

lemma add_new_token_loop_invariant:
  "0 \<le> cv \<Longrightarrow> add_new_token_loop env cv toks s = Inr s' \<Longrightarrow>
   distinct (map fst (term_index s)) \<Longrightarrow> (\<forall>c\<in>snd ` set (term_index s). 1 \<le> c) \<Longrightarrow>
   distinct (map fst (term_index s')) \<and> (\<forall>c\<in>snd ` set (term_index s'). 1 \<le> c)"
proof (induction toks arbitrary: s)
  case Nil
  then show ?case by simp
next
  case (Cons token toks)
  show ?case
  proof (cases "1 < length token \<and> token \<notin> set (stopwords s)")
    case False
    from Cons.prems(2) have "add_new_token_loop env cv toks s = Inr s'"
      by (simp only: add_new_token_loop_skip [OF False])
    from Cons.IH [OF Cons.prems(1) this Cons.prems(3,4)] show ?thesis .
  next
    case True
    with Cons.prems(2) obtain st where st: "stemmer s = Some st"
      by (cases "stemmer s") auto
    let ?tok = "stem env st token"
    let ?v = "case map_of (term_index s) ?tok of None \<Rightarrow> 1 | Some c \<Rightarrow> c + cv"
    let ?s1 = "s\<lparr>term_index := AList.update ?tok ?v (term_index s)\<rparr>"
    from Cons.prems(2) have run: "add_new_token_loop env cv toks ?s1 = Inr s'"
      by (simp only: add_new_token_loop_take [OF True st])
    have d1: "distinct (map fst (term_index ?s1))"
      using Cons.prems(3) by (simp add: distinct_update)
    have v1: "1 \<le> ?v"
    proof (cases "map_of (term_index s) ?tok")
      case None
      then show ?thesis by simp
    next
      case (Some c)
      then have "(?tok, c) \<in> set (term_index s)" by (rule map_of_SomeD)
      with Cons.prems(4) have "1 \<le> c" by force
      with Some Cons.prems(1) show ?thesis by simp
    qed
    have p1: "\<forall>c\<in>snd ` set (term_index ?s1). 1 \<le> c"
    proof
      fix c assume "c \<in> snd ` set (term_index ?s1)"
      then obtain k where "(k, c) \<in> set (AList.update ?tok ?v (term_index s))" by auto
      then have "(k, c) = (?tok, ?v) \<or> (k, c) \<in> set (term_index s)"
        using set_alist_update_subset [of ?tok ?v "term_index s"] by blast
      then show "1 \<le> c"
      proof
        assume "(k, c) = (?tok, ?v)"
        with v1 show ?thesis by simp
      next
        assume "(k, c) \<in> set (term_index s)"
        with Cons.prems(4) show ?thesis by force
      qed
    qed
    from Cons.IH [OF Cons.prems(1) run d1 p1] show ?thesis .
  qed
qed

lemma text_terms_cong:
  "stopwords s' = stopwords s \<Longrightarrow> language s' = language s \<Longrightarrow> stemmer s' = stemmer s \<Longrightarrow>
   text_terms env s' text = text_terms env s text"
  by (cases "stemmer s") (simp_all add: text_terms_def surviving_tokens_def)

lemma texts_terms_cong:
  assumes "stopwords s' = stopwords s" and "language s' = language s" and "stemmer s' = stemmer s"
  shows "texts_terms env s' texts = texts_terms env s texts"
proof -
  have "text_terms env s' = text_terms env s"
    by (rule ext) (rule text_terms_cong [OF assms])
  then show ?thesis by (simp add: texts_terms_def)
qed

lemma texts_terms_Nil: "texts_terms env s [] = []"
  by (simp add: texts_terms_def)

lemma texts_terms_Cons: "texts_terms env s (d # ds) = text_terms env s d @ texts_terms env s ds"
  by (simp add: texts_terms_def)

lemma add_new_token_fields:
  "add_new_token env text cv s = Inr s' \<Longrightarrow>
   stopwords s' = stopwords s \<and> language s' = language s \<and> stemmer s' = stemmer s \<and>
   content s' = content s \<and> corpus s' = corpus s \<and> file_type s' = file_type s"
  unfolding add_new_token_def by (rule add_new_token_loop_fields)

lemma add_new_token_succeeds:
  "stemmer s = Some st \<Longrightarrow> \<exists>s'. add_new_token env text cv s = Inr s'"
  unfolding add_new_token_def by (rule add_new_token_loop_succeeds)

lemma add_new_token_seed:
  assumes st: "stemmer s = Some st" and run: "add_new_token env text 0 s = Inr s'"
  shows "map_of (term_index s') k =
     (case map_of (term_index s) k of
        Some c \<Rightarrow> Some c
      | None \<Rightarrow> if k \<in> set (text_terms env s text) then Some 1 else None)"
proof -
  from run have "add_new_token_loop env 0 (word_tokenize env text (language s)) s = Inr s'"
    by (simp add: add_new_token_def)
  from add_new_token_loop_seed [OF st this, of k] show ?thesis
    by (simp add: text_terms_def surviving_tokens_def st)
qed

lemma add_new_token_keys:
  assumes st: "stemmer s = Some st" and run: "add_new_token env text cv s = Inr s'"
  shows "fst ` set (term_index s') = fst ` set (term_index s) \<union> set (text_terms env s text)"
proof -
  from run have "add_new_token_loop env cv (word_tokenize env text (language s)) s = Inr s'"
    by (simp add: add_new_token_def)
  from add_new_token_loop_keys [OF st this] show ?thesis
    by (simp add: text_terms_def surviving_tokens_def st)
qed

lemma add_new_token_invariant:
  "0 \<le> cv \<Longrightarrow> add_new_token env text cv s = Inr s' \<Longrightarrow>
   distinct (map fst (term_index s)) \<Longrightarrow> (\<forall>c\<in>snd ` set (term_index s). 1 \<le> c) \<Longrightarrow>
   distinct (map fst (term_index s')) \<and> (\<forall>c\<in>snd ` set (term_index s'). 1 \<le> c)"
  unfolding add_new_token_def by (rule add_new_token_loop_invariant)

lemma add_all_fields:
  "add_all env cv texts s = Inr s' \<Longrightarrow>
   stopwords s' = stopwords s \<and> language s' = language s \<and> stemmer s' = stemmer s \<and>
   content s' = content s \<and> corpus s' = corpus s \<and> file_type s' = file_type s"
proof (induction texts arbitrary: s)
  case Nil
  then show ?case by simp
next
  case (Cons d ds)
  from Cons.prems obtain s1 where one: "add_new_token env d cv s = Inr s1"
    and rest: "add_all env cv ds s1 = Inr s'"
    by (auto split: sum.splits)
  from add_new_token_fields [OF one] Cons.IH [OF rest] show ?case by simp
qed

lemma add_all_succeeds:
  "stemmer s = Some st \<Longrightarrow> \<exists>s'. add_all env cv texts s = Inr s'"
proof (induction texts arbitrary: s)
  case Nil
  then show ?case by simp
next
  case (Cons d ds)
  from add_new_token_succeeds [OF Cons.prems]
  obtain s1 where one: "add_new_token env d cv s = Inr s1" by blast
  from add_new_token_fields [OF one] Cons.prems have "stemmer s1 = Some st" by simp
  from Cons.IH [OF this] one show ?case by simp
qed

lemma add_all_seed:
  "stemmer s = Some st \<Longrightarrow> add_all env 0 texts s = Inr s' \<Longrightarrow>
   map_of (term_index s') k =
     (case map_of (term_index s) k of
        Some c \<Rightarrow> Some c
      | None \<Rightarrow> if k \<in> set (texts_terms env s texts) then Some 1 else None)"
proof (induction texts arbitrary: s)
  case Nil
  then show ?case by (simp add: texts_terms_Nil split: option.splits)
next
  case (Cons d ds)
  from Cons.prems(2) obtain s1 where one: "add_new_token env d 0 s = Inr s1"
    and rest: "add_all env 0 ds s1 = Inr s'"
    by (auto split: sum.splits)
  from add_new_token_fields [OF one]
  have same: "stopwords s1 = stopwords s" "language s1 = language s" "stemmer s1 = stemmer s"
    by simp_all
  with Cons.prems(1) have st1: "stemmer s1 = Some st" by simp
  have terms: "texts_terms env s1 ds = texts_terms env s ds"
    using same by (rule texts_terms_cong)
  have step: "map_of (term_index s1) k =
     (case map_of (term_index s) k of
        Some c \<Rightarrow> Some c
      | None \<Rightarrow> if k \<in> set (text_terms env s d) then Some 1 else None)"
    using Cons.prems(1) one by (rule add_new_token_seed)
  have "map_of (term_index s') k =
     (case map_of (term_index s1) k of
        Some c \<Rightarrow> Some c
      | None \<Rightarrow> if k \<in> set (texts_terms env s ds) then Some 1 else None)"
    using Cons.IH [OF st1 rest] by (simp only: terms)
  then show ?case
    by (cases "map_of (term_index s) k") (simp_all add: step texts_terms_Cons)
qed

lemma add_all_keys:
  "stemmer s = Some st \<Longrightarrow> add_all env cv texts s = Inr s' \<Longrightarrow>
   fst ` set (term_index s') = fst ` set (term_index s) \<union> set (texts_terms env s texts)"
proof (induction texts arbitrary: s)
  case Nil
  then show ?case by (simp add: texts_terms_Nil)
next
  case (Cons d ds)
  from Cons.prems(2) obtain s1 where one: "add_new_token env d cv s = Inr s1"
    and rest: "add_all env cv ds s1 = Inr s'"
    by (auto split: sum.splits)
  from add_new_token_fields [OF one]
  have same: "stopwords s1 = stopwords s" "language s1 = language s" "stemmer s1 = stemmer s"
    by simp_all
  with Cons.prems(1) have st1: "stemmer s1 = Some st" by simp
  have terms: "texts_terms env s1 ds = texts_terms env s ds"
    using same by (rule texts_terms_cong)
  from Cons.IH [OF st1 rest] add_new_token_keys [OF Cons.prems(1) one]
  show ?case
    by (simp add: terms texts_terms_Cons Un_assoc)
qed

lemma add_all_invariant:
  "0 \<le> cv \<Longrightarrow> add_all env cv texts s = Inr s' \<Longrightarrow>
   distinct (map fst (term_index s)) \<Longrightarrow> (\<forall>c\<in>snd ` set (term_index s). 1 \<le> c) \<Longrightarrow>
   distinct (map fst (term_index s')) \<and> (\<forall>c\<in>snd ` set (term_index s'). 1 \<le> c)"
proof (induction texts arbitrary: s)
  case Nil
  then show ?case by simp
next
  case (Cons d ds)
  from Cons.prems(2) obtain s1 where one: "add_new_token env d cv s = Inr s1"
    and rest: "add_all env cv ds s1 = Inr s'"
    by (auto split: sum.splits)
  from add_new_token_invariant [OF Cons.prems(1) one Cons.prems(3,4)]
  have "distinct (map fst (term_index s1))" "\<forall>c\<in>snd ` set (term_index s1). 1 \<le> c"
    by simp_all
  with Cons.IH [OF Cons.prems(1) rest] show ?case by blast
qed

lemma local_index_counts:
  assumes "Spider_init env c f lang = Inr ns" and "add_new_token env text 1 ns = Inr ns1"
  shows "distinct (map fst (term_index ns1)) \<and> (\<forall>c\<in>snd ` set (term_index ns1). 1 \<le> c)"
proof -
  from Spider_init_Inr [OF assms(1)] have "term_index ns = []" by simp
  then have "distinct (map fst (term_index ns))" "\<forall>c\<in>snd ` set (term_index ns). 1 \<le> c"
    by simp_all
  with add_new_token_invariant [OF _ assms(2)] show ?thesis by simp
qed

section \<open>The weight table\<close>

lemma term_weight_zero: "term_weight lib tc 0 = Inl ZeroDivisionError"
  by (simp add: term_weight_def py_truediv_zero)

lemma term_weight_Inl:
  assumes "term_weight lib tc c = Inl e"
  shows "(c = 0 \<and> e = ZeroDivisionError) \<or> (c \<noteq> 0 \<and> (e = OverflowError \<or> e = ValueError))"
proof (cases "py_truediv tc c")
  case (Inl e')
  with assms have "e' = e" by (simp add: term_weight_def)
  with py_truediv_Inl [OF Inl] show ?thesis by auto
next
  case (Inr q)
  with assms have "math_log lib q = Inl e" by (simp add: term_weight_def)
  from math_log_Inl [OF this] py_truediv_Inr [OF Inr] show ?thesis by simp
qed

lemma term_weight_Inr:
  assumes "term_weight lib tc c = Inr w"
  shows "c \<noteq> 0 \<and> 0 < float64_round (real_of_int tc / real_of_int c) \<and>
         w = libm_log lib (float64_round (real_of_int tc / real_of_int c))"
proof (cases "py_truediv tc c")
  case (Inl e)
  with assms show ?thesis by (simp add: term_weight_def)
next
  case (Inr q)
  with assms have "math_log lib q = Inr w" by (simp add: term_weight_def)
  from math_log_Inr [OF this] py_truediv_Inr [OF Inr] show ?thesis by simp
qed


lemma term_weight_same: "c \<noteq> 0 \<Longrightarrow> term_weight lib c c = Inr (libm_log lib 1)"
  by (simp add: term_weight_def py_truediv_same math_log_pos)

lemma term_weight_nonneg:
  assumes "log_faithful lib" and "term_weight lib tc c = Inr w" and "0 < c" and "c \<le> tc"
  shows "0 \<le> w"
proof -
  from assms(3,4) have "1 \<le> real_of_int tc / real_of_int c" by simp
  then have "1 \<le> float64_round (real_of_int tc / real_of_int c)" by (rule float64_round_ge_one)
  with assms(1) have "0 \<le> libm_log lib (float64_round (real_of_int tc / real_of_int c))"
    by (rule log_faithful_nonneg)
  with term_weight_Inr [OF assms(2)] show ?thesis by simp
qed

lemma term_weight_succeeds:
  assumes "0 < c" and "c \<le> tc" and "real_of_int tc \<le> float64_max"
  shows "\<exists>w. term_weight lib tc c = Inr w"
proof -
  from py_truediv_succeeds [OF assms] obtain q where q: "py_truediv tc c = Inr q" "1 \<le> q"
    by blast
  then have "math_log lib q = Inr (libm_log lib q)" by (intro math_log_pos) simp
  with q show ?thesis by (simp add: term_weight_def)
qed

lemma idf_loop_Cons:
  "idf_loop lib ti tc (word # ws) t =
     (case map_of ti word of
        None \<Rightarrow> Inl KeyError
      | Some c \<Rightarrow>
          (case term_weight lib tc c of
             Inl e \<Rightarrow> Inl e
           | Inr w \<Rightarrow> idf_loop lib ti tc ws (t\<lparr>idf := AList.update word w (idf t)\<rparr>)))"
  by (simp add: term_weight_def split: option.splits sum.splits)

lemma idf_loop_Cons_Inr:
  assumes "idf_loop lib ti tc (word # ws) t = Inr t'"
  shows "\<exists>c w. map_of ti word = Some c \<and> term_weight lib tc c = Inr w \<and>
           idf_loop lib ti tc ws (t\<lparr>idf := AList.update word w (idf t)\<rparr>) = Inr t'"
  using assms unfolding idf_loop_Cons by (auto split: option.splits sum.splits)

lemma idf_loop_fields:
  "idf_loop lib ti tc ws t = Inr t' \<Longrightarrow>
   spider t' = spider t \<and> word_vector t' = word_vector t \<and> indexed_documents t' = indexed_documents t"
proof (induction ws arbitrary: t)
  case Nil
  then show ?case by simp
next
  case (Cons word ws)
  from idf_loop_Cons_Inr [OF Cons.prems] obtain w where
    "idf_loop lib ti tc ws (t\<lparr>idf := AList.update word w (idf t)\<rparr>) = Inr t'" by blast
  from Cons.IH [OF this] show ?case by simp
qed

lemma idf_loop_other:
  "idf_loop lib ti tc ws t = Inr t' \<Longrightarrow> w \<notin> set ws \<Longrightarrow> map_of (idf t') w = map_of (idf t) w"
proof (induction ws arbitrary: t)
  case Nil
  then show ?case by simp
next
  case (Cons word ws)
  from idf_loop_Cons_Inr [OF Cons.prems(1)] obtain x where
    rest: "idf_loop lib ti tc ws (t\<lparr>idf := AList.update word x (idf t)\<rparr>) = Inr t'" by blast
  from Cons.prems(2) have "w \<notin> set ws" "w \<noteq> word" by simp_all
  with Cons.IH [OF rest] show ?case by (simp add: update_conv')
qed

lemma idf_loop_keys:
  "idf_loop lib ti tc ws t = Inr t' \<Longrightarrow> fst ` set (idf t') = fst ` set (idf t) \<union> set ws"
proof (induction ws arbitrary: t)
  case Nil
  then show ?case by simp
next
  case (Cons word ws)
  from idf_loop_Cons_Inr [OF Cons.prems] obtain w where
    rest: "idf_loop lib ti tc ws (t\<lparr>idf := AList.update word w (idf t)\<rparr>) = Inr t'" by blast
  from Cons.IH [OF rest] show ?case by (auto simp: dom_update)
qed

lemma idf_loop_distinct:
  "idf_loop lib ti tc ws t = Inr t' \<Longrightarrow> distinct (map fst (idf t)) \<Longrightarrow> distinct (map fst (idf t'))"
proof (induction ws arbitrary: t)
  case Nil
  then show ?case by simp
next
  case (Cons word ws)
  from idf_loop_Cons_Inr [OF Cons.prems(1)] obtain w where
    rest: "idf_loop lib ti tc ws (t\<lparr>idf := AList.update word w (idf t)\<rparr>) = Inr t'" by blast
  from Cons.prems(2) have "distinct (map fst (idf (t\<lparr>idf := AList.update word w (idf t)\<rparr>)))"
    by (simp add: distinct_update)
  from Cons.IH [OF rest this] show ?case .
qed

lemma idf_loop_lookup:
  "idf_loop lib ti tc ws t = Inr t' \<Longrightarrow> w \<in> set ws \<Longrightarrow>
   \<exists>c x. map_of ti w = Some c \<and> term_weight lib tc c = Inr x \<and> map_of (idf t') w = Some x"
proof (induction ws arbitrary: t)
  case Nil
  then show ?case by simp
next
  case (Cons word ws)
  from idf_loop_Cons_Inr [OF Cons.prems(1)] obtain c x where
    c: "map_of ti word = Some c" "term_weight lib tc c = Inr x" and
    rest: "idf_loop lib ti tc ws (t\<lparr>idf := AList.update word x (idf t)\<rparr>) = Inr t'" by blast
  show ?case
  proof (cases "w \<in> set ws")
    case True
    then show ?thesis using Cons.IH [OF rest] by simp
  next
    case False
    with Cons.prems(2) have w: "w = word" by simp
    from idf_loop_other [OF rest False]
    have "map_of (idf t') w = Some x" by (simp add: update_conv' w)
    with c w show ?thesis by simp
  qed
qed

lemma idf_loop_succeeds:
  "(\<forall>w\<in>set ws. \<exists>c x. map_of ti w = Some c \<and> term_weight lib tc c = Inr x) \<Longrightarrow>
   \<exists>t'. idf_loop lib ti tc ws t = Inr t'"
proof (induction ws arbitrary: t)
  case Nil
  then show ?case by simp
next
  case (Cons word ws)
  from Cons.prems obtain c x where c: "map_of ti word = Some c" "term_weight lib tc c = Inr x"
    by auto
  from Cons.prems have "\<forall>w\<in>set ws. \<exists>c x. map_of ti w = Some c \<and> term_weight lib tc c = Inr x"
    by simp
  from Cons.IH [OF this, of "t\<lparr>idf := AList.update word x (idf t)\<rparr>"] c
  show ?case by (simp only: idf_loop_Cons option.case sum.case)
qed

text \<open>The loop stops at the first term whose weight cannot be computed, with its error.\<close>

lemma idf_loop_first_failure:
  assumes "\<forall>w\<in>set pre. \<exists>c x. map_of ti w = Some c \<and> term_weight lib tc c = Inr x"
      and "map_of ti word = Some c" and "term_weight lib tc c = Inl e"
  shows "idf_loop lib ti tc (pre @ word # post) t = Inl e"
  using assms(1)
proof (induction pre arbitrary: t)
  case Nil
  show ?case by (simp only: append_Nil idf_loop_Cons assms(2,3) option.case sum.case)
next
  case (Cons p pre)
  from Cons.prems obtain c' x where c': "map_of ti p = Some c'" "term_weight lib tc c' = Inr x"
    by auto
  from Cons.prems have "\<forall>w\<in>set pre. \<exists>c x. map_of ti w = Some c \<and> term_weight lib tc c = Inr x"
    by simp
  from Cons.IH [OF this, of "t\<lparr>idf := AList.update p x (idf t)\<rparr>"] c'
  show ?case by (simp only: append_Cons idf_loop_Cons option.case sum.case)
qed

lemma sort_key_split_counts:
  assumes "sort_key (\<lambda>(k, v). - v) xs = ys @ (w, c) # zs"
  shows "(\<forall>(k, v)\<in>set ys. (c::int) \<le> v) \<and> (\<forall>(k, v)\<in>set zs. v \<le> c)"
proof -
  have "sorted (map (\<lambda>(k, v). - v) (sort_key (\<lambda>(k, v). - v) xs))" by (rule sorted_sort_key)
  then have "sorted (map (\<lambda>(k, v). - v) ys @ (- c) # map (\<lambda>(k, v). - v) zs)"
    by (simp add: assms)
  then show ?thesis by (auto simp: sorted_append)
qed

lemma init_term_frequency_unfold:
  assumes "distinct (map fst (term_index sp))"
  shows "init_term_frequency lib (Tfidf_new sp) =
         idf_loop lib (sort_key (\<lambda>(k, v). - v) (term_index sp)) (sum_list (map snd (term_index sp)))
           (map fst (sort_key (\<lambda>(k, v). - v) (term_index sp)))
           ((Tfidf_new sp)\<lparr>word_vector := map fst (sort_key (\<lambda>(k, v). - v) (term_index sp))\<rparr>)"
  using assms
  by (simp add: init_term_frequency_def Let_def get_index_dictionary_sorted sum_list_snd_sort_key
      Tfidf_new_def)

lemma init_term_frequency_lookup:
  assumes d: "distinct (map fst (term_index sp))"
      and ok: "init_term_frequency lib (Tfidf_new sp) = Inr t"
      and w: "map_of (term_index sp) w = Some c"
  shows "\<exists>x. term_weight lib (sum_list (map snd (term_index sp))) c = Inr x \<and>
           w \<in> set (word_vector t) \<and> map_of (idf t) w = Some x"
proof -
  let ?ti = "sort_key (\<lambda>(k, v). - v) (term_index sp)"
  let ?tc = "sum_list (map snd (term_index sp))"
  let ?t0 = "(Tfidf_new sp)\<lparr>word_vector := map fst ?ti\<rparr>"
  from ok have loop: "idf_loop lib ?ti ?tc (map fst ?ti) ?t0 = Inr t"
    by (simp add: init_term_frequency_unfold [OF d])
  from w have "(w, c) \<in> set (term_index sp)" by (rule map_of_SomeD)
  then have mem: "w \<in> set (map fst ?ti)" by force
  have m: "map_of ?ti = map_of (term_index sp)" by (rule map_of_sort_key [OF d])
  from idf_loop_lookup [OF loop mem] w m
  have "\<exists>x. term_weight lib ?tc c = Inr x \<and> map_of (idf t) w = Some x" by simp
  moreover from idf_loop_fields [OF loop] mem have "w \<in> set (word_vector t)" by simp
  ultimately show ?thesis by blast
qed

lemma init_term_frequency_succeeds:
  assumes d: "distinct (map fst (term_index sp))"
      and pos: "\<forall>c\<in>snd ` set (term_index sp). 1 \<le> c"
      and range: "real_of_int (sum_list (map snd (term_index sp))) \<le> float64_max"
  shows "\<exists>t. init_term_frequency lib (Tfidf_new sp) = Inr t"
proof -
  let ?ti = "sort_key (\<lambda>(k, v). - v) (term_index sp)"
  let ?tc = "sum_list (map snd (term_index sp))"
  have m: "map_of ?ti = map_of (term_index sp)" by (rule map_of_sort_key [OF d])
  have "\<forall>w\<in>set (map fst ?ti). \<exists>c x. map_of ?ti w = Some c \<and> term_weight lib ?tc c = Inr x"
  proof
    fix w assume "w \<in> set (map fst ?ti)"
    then obtain c where wc: "(w, c) \<in> set (term_index sp)" by auto
    with d have look: "map_of (term_index sp) w = Some c" by simp
    from wc pos have c1: "1 \<le> c" by force
    from pos have "\<forall>x\<in>set (map snd (term_index sp)). 0 \<le> x" by force
    moreover from wc have "c \<in> set (map snd (term_index sp))" by force
    ultimately have "c \<le> ?tc" by (rule member_le_sum_list_int)
    with c1 range have "\<exists>x. term_weight lib ?tc c = Inr x" by (intro term_weight_succeeds) simp_all
    with look m show "\<exists>c x. map_of ?ti w = Some c \<and> term_weight lib ?tc c = Inr x" by simp
  qed
  then show ?thesis
    unfolding init_term_frequency_unfold [OF d] by (rule idf_loop_succeeds)
qed

lemma init_term_frequency_vocabulary:
  assumes d: "distinct (map fst (term_index sp))"
      and ok: "init_term_frequency lib (Tfidf_new sp) = Inr t"
  shows "word_vector t = map fst (sort_key (\<lambda>(k, v). - v) (term_index sp))"
proof -
  from ok have "idf_loop lib (sort_key (\<lambda>(k, v). - v) (term_index sp)) (sum_list (map snd (term_index sp)))
           (map fst (sort_key (\<lambda>(k, v). - v) (term_index sp)))
           ((Tfidf_new sp)\<lparr>word_vector := map fst (sort_key (\<lambda>(k, v). - v) (term_index sp))\<rparr>) = Inr t"
    by (simp add: init_term_frequency_unfold [OF d])
  from idf_loop_fields [OF this] show ?thesis by simp
qed

lemma init_term_frequency_Inr:
  assumes "init_term_frequency lib (Tfidf_new sp) = Inr t"
  shows "spider t = sp \<and> indexed_documents t = [] \<and> fst ` set (idf t) = set (word_vector t) \<and>
         distinct (map fst (idf t))"
proof -
  let ?ti = "get_index_dictionary True sp"
  let ?t0 = "(Tfidf_new sp)\<lparr>word_vector := map fst ?ti\<rparr>"
  from assms have loop: "idf_loop lib ?ti (sum_list (map snd ?ti)) (map fst ?ti) ?t0 = Inr t"
    by (simp add: init_term_frequency_def Let_def Tfidf_new_def)
  have "distinct (map fst (idf ?t0))" by (simp add: Tfidf_new_def)
  with idf_loop_fields [OF loop] idf_loop_keys [OF loop] idf_loop_distinct [OF loop]
  show ?thesis by (simp add: Tfidf_new_def)
qed

text \<open>
  With a term of count 0 in the table the computation fails, and the error is that of the
  first term in sorted order whose weight cannot be computed.
\<close>

lemma init_term_frequency_failure:
  assumes d: "distinct (map fst (term_index sp))"
      and split: "sort_key (\<lambda>(k, v). - v) (term_index sp) = ys @ (w, c) # zs"
      and good: "\<forall>(k, v)\<in>set ys. \<exists>x. term_weight lib (sum_list (map snd (term_index sp))) v = Inr x"
      and bad: "term_weight lib (sum_list (map snd (term_index sp))) c = Inl e"
  shows "init_term_frequency lib (Tfidf_new sp) = Inl e"
proof -
  let ?ti = "sort_key (\<lambda>(k, v). - v) (term_index sp)"
  let ?tc = "sum_list (map snd (term_index sp))"
  have dk: "distinct (map fst ?ti)" using d by (rule distinct_fst_sort_key)
  have pre: "\<forall>p\<in>set (map fst ys). \<exists>c x. map_of ?ti p = Some c \<and> term_weight lib ?tc c = Inr x"
  proof
    fix p assume "p \<in> set (map fst ys)"
    then obtain v where pv: "(p, v) \<in> set ys" by auto
    then have "(p, v) \<in> set ?ti" by (simp add: split)
    with dk have "map_of ?ti p = Some v" by simp
    moreover from good pv have "\<exists>x. term_weight lib ?tc v = Inr x" by auto
    ultimately show "\<exists>c x. map_of ?ti p = Some c \<and> term_weight lib ?tc c = Inr x" by simp
  qed
  have "(w, c) \<in> set ?ti" by (simp add: split)
  with dk have look: "map_of ?ti w = Some c" by simp
  have words: "map fst ?ti = map fst ys @ w # map fst zs" by (simp add: split)
  show ?thesis
    unfolding init_term_frequency_unfold [OF d] words
    using pre look bad by (rule idf_loop_first_failure)
qed

lemma init_term_frequency_nonneg:
  assumes lib: "log_faithful lib"
      and d: "distinct (map fst (term_index sp))"
      and pos: "\<forall>c\<in>snd ` set (term_index sp). 1 \<le> c"
      and t: "init_term_frequency lib (Tfidf_new sp) = Inr t"
  shows "\<forall>x\<in>snd ` set (idf t). 0 \<le> x"
proof
  let ?tc = "sum_list (map snd (term_index sp))"
  from init_term_frequency_Inr [OF t]
  have keys: "fst ` set (idf t) = set (word_vector t)" and dist: "distinct (map fst (idf t))"
    by simp_all
  fix x assume "x \<in> snd ` set (idf t)"
  then obtain w where wx: "(w, x) \<in> set (idf t)" by auto
  with dist have look: "map_of (idf t) w = Some x" by simp
  from wx keys have "w \<in> set (word_vector t)" by force
  then have "w \<in> fst ` set (term_index sp)"
    by (simp add: init_term_frequency_vocabulary [OF d t])
  then obtain c where wc: "(w, c) \<in> set (term_index sp)" by auto
  with d have c: "map_of (term_index sp) w = Some c" by simp
  from init_term_frequency_lookup [OF d t c] look
  have x: "term_weight lib ?tc c = Inr x" by auto
  from wc pos have c1: "1 \<le> c" by force
  from pos have "\<forall>y\<in>set (map snd (term_index sp)). 0 \<le> y" by force
  moreover from wc have "c \<in> set (map snd (term_index sp))" by force
  ultimately have "c \<le> ?tc" by (rule member_le_sum_list_int)
  with c1 show "0 \<le> x" by (intro term_weight_nonneg [OF lib x]) simp_all
qed

lemma init_term_frequency_zero_count:
  assumes d: "distinct (map fst (term_index sp))"
      and z: "0 \<in> snd ` set (term_index sp)"
  shows "(\<exists>e. init_term_frequency lib (Tfidf_new sp) = Inl e \<and>
            (e = ZeroDivisionError \<or> e = OverflowError \<or> e = ValueError)) \<and>
         (init_term_frequency lib (Tfidf_new sp) = Inl ZeroDivisionError \<longleftrightarrow>
            (\<forall>c\<in>snd ` set (term_index sp). 0 < c \<longrightarrow>
               (\<exists>x. term_weight lib (sum_list (map snd (term_index sp))) c = Inr x)))"
proof -
  let ?ti = "sort_key (\<lambda>(k, v). - v) (term_index sp)"
  let ?tc = "sum_list (map snd (term_index sp))"
  let ?bad = "\<lambda>(k :: string, v). \<forall>x. term_weight lib ?tc v \<noteq> Inr x"
  from z obtain w0 where w0: "(w0, 0) \<in> set (term_index sp)" by force
  then have w0': "(w0, 0) \<in> set ?ti" by simp
  moreover have "?bad (w0, 0)" by (simp add: term_weight_zero)
  ultimately have "\<exists>p\<in>set ?ti. ?bad p" by blast
  from split_list_first_prop [OF this] obtain ys p zs where
    split0: "?ti = ys @ p # zs" and bp: "?bad p" and first: "\<forall>y\<in>set ys. \<not> ?bad y"
    by blast
  obtain w c where p: "p = (w, c)" by (cases p)
  from split0 have split: "?ti = ys @ (w, c) # zs" by (simp only: p)
  from bp obtain e where e: "term_weight lib ?tc c = Inl e"
    by (cases "term_weight lib ?tc c") (auto simp: p)
  from first have good: "\<forall>(k, v)\<in>set ys. \<exists>x. term_weight lib ?tc v = Inr x" by auto
  from init_term_frequency_failure [OF d split good e]
  have res: "init_term_frequency lib (Tfidf_new sp) = Inl e" .
  from sort_key_split_counts [OF split]
  have before: "\<forall>(k, v)\<in>set ys. c \<le> v" and after: "\<forall>(k, v)\<in>set zs. v \<le> c" by simp_all
  have part: "\<And>k v. (k, v) \<in> set (term_index sp) \<Longrightarrow>
      (k, v) \<in> set ys \<or> (k, v) = (w, c) \<or> (k, v) \<in> set zs"
  proof -
    fix k v assume "(k, v) \<in> set (term_index sp)"
    then have "(k, v) \<in> set ?ti" by simp
    then have "(k, v) \<in> set (ys @ (w, c) # zs)" by (simp only: split)
    then show "(k, v) \<in> set ys \<or> (k, v) = (w, c) \<or> (k, v) \<in> set zs" by auto
  qed
  have wc: "(w, c) \<in> set (term_index sp)"
  proof -
    have "(w, c) \<in> set (ys @ (w, c) # zs)" by simp
    then have "(w, c) \<in> set ?ti" by (simp only: split)
    then show ?thesis by simp
  qed
  have kinds: "e = ZeroDivisionError \<or> e = OverflowError \<or> e = ValueError"
    using term_weight_Inl [OF e] by auto
  have iff: "init_term_frequency lib (Tfidf_new sp) = Inl ZeroDivisionError \<longleftrightarrow>
      (\<forall>c\<in>snd ` set (term_index sp). 0 < c \<longrightarrow> (\<exists>x. term_weight lib ?tc c = Inr x))"
  proof
    assume "init_term_frequency lib (Tfidf_new sp) = Inl ZeroDivisionError"
    with res have "e = ZeroDivisionError" by simp
    with term_weight_Inl [OF e] have c0: "c = 0" by auto
    show "\<forall>c\<in>snd ` set (term_index sp). 0 < c \<longrightarrow> (\<exists>x. term_weight lib ?tc c = Inr x)"
    proof (intro ballI impI)
      fix c' assume "c' \<in> snd ` set (term_index sp)" and pos: "0 < c'"
      then obtain k where "(k, c') \<in> set (term_index sp)" by auto
      from part [OF this] after c0 pos have "(k, c') \<in> set ys" by auto
      with good show "\<exists>x. term_weight lib ?tc c' = Inr x" by auto
    qed
  next
    assume all: "\<forall>c\<in>snd ` set (term_index sp). 0 < c \<longrightarrow> (\<exists>x. term_weight lib ?tc c = Inr x)"
    have "c = 0"
    proof (rule ccontr)
      assume nz: "c \<noteq> 0"
      have "\<not> 0 < c"
      proof
        assume "0 < c"
        with all wc have "\<exists>x. term_weight lib ?tc c = Inr x" by force
        with e show False by simp
      qed
      with nz have neg: "c < 0" by simp
      from part [OF w0] show False
      proof (elim disjE)
        assume "(w0, 0) \<in> set ys"
        with good have "\<exists>x. term_weight lib ?tc 0 = Inr x" by auto
        then show False by (simp add: term_weight_zero)
      next
        assume "(w0, 0) = (w, c)"
        with nz show False by simp
      next
        assume "(w0, 0) \<in> set zs"
        with after have "0 \<le> c" by auto
        with neg show False by simp
      qed
    qed
    with e have "e = ZeroDivisionError" by (simp add: term_weight_zero)
    with res show "init_term_frequency lib (Tfidf_new sp) = Inl ZeroDivisionError" by simp
  qed
  from res kinds iff show ?thesis by blast
qed

section \<open>Vectors, documents and the scan\<close>

lemma create_word_vector_Inr:
  "create_word_vector env t text = Inr v \<Longrightarrow>
   \<exists>ns ns1. Spider_init env ''data'' ''txt'' (language (spider t)) = Inr ns \<and>
     add_new_token env text 1 ns = Inr ns1 \<and>
     vector_loop t (term_index ns1) (sum_list (map snd (term_index ns1)))
       (map fst (term_index ns1)) (replicate (length (word_vector t)) 0) = Inr v"
  by (auto simp: create_word_vector_def get_index_dictionary_def Let_def split: sum.splits)

lemma create_word_vector_run:
  "Spider_init env ''data'' ''txt'' (language (spider t)) = Inr ns \<Longrightarrow>
   add_new_token env text 1 ns = Inr ns1 \<Longrightarrow>
   create_word_vector env t text =
     vector_loop t (term_index ns1) (sum_list (map snd (term_index ns1)))
       (map fst (term_index ns1)) (replicate (length (word_vector t)) 0)"
  by (simp add: create_word_vector_def get_index_dictionary_def Let_def)

lemma vector_loop_cong:
  "word_vector t = word_vector t' \<Longrightarrow> idf t = idf t' \<Longrightarrow>
   vector_loop t ti len toks v = vector_loop t' ti len toks v"
  by (induction toks arbitrary: v) (simp_all split: option.splits sum.splits)

lemma vector_loop_length:
  "vector_loop t ti len toks v = Inr v' \<Longrightarrow> length v' = length v"
  by (induction toks arbitrary: v) (auto split: if_splits option.splits sum.splits)

lemma vector_loop_succeeds:
  assumes "set (word_vector t) \<subseteq> fst ` set (idf t)"
      and "set toks \<subseteq> fst ` set ti"
      and "\<forall>c\<in>snd ` set ti. 0 \<le> c \<and> c \<le> len"
      and "toks \<noteq> [] \<longrightarrow> len \<noteq> 0"
  shows "\<exists>v'. vector_loop t ti len toks v = Inr v'"
  using assms(2,4)
proof (induction toks arbitrary: v)
  case Nil
  then show ?case by simp
next
  case (Cons token toks)
  from Cons.prems have len: "len \<noteq> 0" by simp
  from Cons.prems have rest: "set toks \<subseteq> fst ` set ti" "toks \<noteq> [] \<longrightarrow> len \<noteq> 0"
    using len by auto
  show ?case
  proof (cases "token \<in> set (word_vector t)")
    case False
    with Cons.IH [OF rest] show ?thesis by simp
  next
    case True
    from list_index_Some [OF True] obtain i where i: "list_index (word_vector t) token = Some i"
      by blast
    from True assms(1) obtain w where w: "map_of (idf t) token = Some w"
      by (metis subsetD map_of_eq_None_iff not_Some_eq)
    from Cons.prems(1) obtain c where c: "map_of ti token = Some c"
      by (metis list.set_intros(1) subsetD map_of_eq_None_iff not_Some_eq)
    from c have "(token, c) \<in> set ti" by (rule map_of_SomeD)
    with assms(3) have "0 \<le> c" "c \<le> len" by force+
    from py_truediv_rate [OF this len] obtain r where r: "py_truediv c len = Inr r" by blast
    from Cons.IH [OF rest, of "v[i := float64_round (w * r)]"]
    show ?thesis using True i w c r by simp
  qed
qed

lemma vector_loop_nonneg:
  assumes idf: "\<forall>x\<in>snd ` set (idf t). 0 \<le> x"
      and ti: "\<forall>c\<in>snd ` set ti. 0 \<le> c"
      and len: "0 \<le> len"
  shows "vector_loop t ti len toks v = Inr v' \<Longrightarrow> \<forall>x\<in>set v. 0 \<le> x \<Longrightarrow> \<forall>x\<in>set v'. 0 \<le> x"
proof (induction toks arbitrary: v)
  case Nil
  then show ?case by simp
next
  case (Cons token toks)
  show ?case
  proof (cases "token \<in> set (word_vector t)")
    case False
    with Cons.prems(1) have "vector_loop t ti len toks v = Inr v'" by simp
    from Cons.IH [OF this Cons.prems(2)] show ?thesis .
  next
    case True
    with Cons.prems(1) obtain i w c r where
      w: "map_of (idf t) token = Some w" and c: "map_of ti token = Some c" and
      r: "py_truediv c len = Inr r" and
      run: "vector_loop t ti len toks (v[i := float64_round (w * r)]) = Inr v'"
      by (auto split: option.splits sum.splits if_splits)
    from w have "(token, w) \<in> set (idf t)" by (rule map_of_SomeD)
    with idf have w0: "0 \<le> w" by force
    from c have "(token, c) \<in> set ti" by (rule map_of_SomeD)
    with ti have c0: "0 \<le> c" by force
    from py_truediv_nonneg [OF r c0 len] have "0 \<le> r" .
    with w0 have "0 \<le> w * r" by (rule mult_nonneg_nonneg)
    then have x0: "0 \<le> float64_round (w * r)" by (rule float64_round_nonneg)
    have "set (v[i := float64_round (w * r)]) \<subseteq> insert (float64_round (w * r)) (set v)"
      by (rule set_update_subset_insert)
    with x0 Cons.prems(2) have "\<forall>x\<in>set (v[i := float64_round (w * r)]). 0 \<le> x"
      by auto
    from Cons.IH [OF run this] show ?thesis .
  qed
qed

lemma create_word_vector_cong:
  assumes "word_vector t1 = word_vector t2" and "idf t1 = idf t2"
      and "language (spider t1) = language (spider t2)"
  shows "create_word_vector env t1 text = create_word_vector env t2 text"
  using assms
  by (simp add: create_word_vector_def Let_def vector_loop_cong [OF assms(1,2)]
      cong: sum.case_cong)

lemma create_word_vector_nonneg:
  assumes idf: "\<forall>x\<in>snd ` set (idf t). 0 \<le> x"
      and run: "create_word_vector env t text = Inr v"
  shows "\<forall>x\<in>set v. 0 \<le> x"
proof -
  from create_word_vector_Inr [OF run] obtain ns ns1 where
    ns: "Spider_init env ''data'' ''txt'' (language (spider t)) = Inr ns" and
    ns1: "add_new_token env text 1 ns = Inr ns1" and
    loop: "vector_loop t (term_index ns1) (sum_list (map snd (term_index ns1)))
       (map fst (term_index ns1)) (replicate (length (word_vector t)) 0) = Inr v"
    by blast
  from local_index_counts [OF ns ns1] have c1: "\<forall>c\<in>snd ` set (term_index ns1). 1 \<le> c" by simp
  then have c0: "\<forall>c\<in>snd ` set (term_index ns1). 0 \<le> c" by force
  then have "0 \<le> sum_list (map snd (term_index ns1))" by (intro sum_list_nonneg) auto
  from vector_loop_nonneg [OF idf c0 this loop] show ?thesis by simp
qed

lemma create_word_vector_succeeds:
  assumes lang: "language (spider t) = ''german'' \<or> language (spider t) = ''english''"
      and sw: "stopwords_words env (language (spider t)) = Some sw"
      and wf: "set (word_vector t) \<subseteq> fst ` set (idf t)"
  shows "\<exists>v. create_word_vector env t text = Inr v \<and> length v = length (word_vector t)"
proof -
  from sw obtain ns where ns: "Spider_init env ''data'' ''txt'' (language (spider t)) = Inr ns"
    by (simp add: Spider_init_def)
  from Spider_init_Inr [OF ns] lang obtain st where "stemmer ns = Some st" by auto
  from add_new_token_succeeds [OF this]
  obtain ns1 where ns1: "add_new_token env text 1 ns = Inr ns1" by blast
  let ?ti = "term_index ns1"
  from local_index_counts [OF ns ns1] have c1: "\<forall>c\<in>snd ` set ?ti. 1 \<le> c" by simp
  have len: "map fst ?ti \<noteq> [] \<longrightarrow> sum_list (map snd ?ti) \<noteq> 0"
  proof
    assume "map fst ?ti \<noteq> []"
    then have "map snd ?ti \<noteq> []" by simp
    moreover from c1 have "\<forall>x\<in>set (map snd ?ti). 1 \<le> x" by simp
    ultimately have "1 \<le> sum_list (map snd ?ti)" by (rule sum_list_pos_int)
    then show "sum_list (map snd ?ti) \<noteq> 0" by simp
  qed
  have rate: "\<forall>c\<in>snd ` set ?ti. 0 \<le> c \<and> c \<le> sum_list (map snd ?ti)"
  proof
    fix c assume c: "c \<in> snd ` set ?ti"
    with c1 have "1 \<le> c" by blast
    moreover from c1 have "\<forall>x\<in>set (map snd ?ti). 0 \<le> x" by force
    then have "c \<le> sum_list (map snd ?ti)" using c by (intro member_le_sum_list_int) simp_all
    ultimately show "0 \<le> c \<and> c \<le> sum_list (map snd ?ti)" by simp
  qed
  have "set (map fst ?ti) \<subseteq> fst ` set ?ti" by simp
  from vector_loop_succeeds [OF wf this rate len]
  obtain v where v: "vector_loop t ?ti (sum_list (map snd ?ti)) (map fst ?ti)
      (replicate (length (word_vector t)) 0) = Inr v"
    by blast
  from vector_loop_length [OF v] v create_word_vector_run [OF ns ns1]
  show ?thesis by simp
qed

lemma create_word_vector_no_survivor:
  assumes ns: "Spider_init env ''data'' ''txt'' (language (spider t)) = Inr ns"
      and none: "surviving_tokens env ns text = []"
  shows "create_word_vector env t text = Inr (replicate (length (word_vector t)) 0)"
proof -
  from none have "add_new_token env text 1 ns = Inr ns"
    by (simp add: add_new_token_def surviving_tokens_def add_new_token_loop_no_survivor)
  from create_word_vector_run [OF ns this] Spider_init_Inr [OF ns] show ?thesis by simp
qed

lemma insert_documents_fields:
  "insert_documents env docs t = Inr t' \<Longrightarrow>
   spider t' = spider t \<and> idf t' = idf t \<and> word_vector t' = word_vector t"
proof (induction docs arbitrary: t)
  case Nil
  then show ?case by simp
next
  case (Cons d ds)
  obtain key val where d: "d = (key, val)" by (cases d)
  from Cons.prems obtain v where
    "insert_documents env ds (t\<lparr>indexed_documents := AList.update key v (indexed_documents t)\<rparr>) = Inr t'"
    by (auto simp: d split: sum.splits)
  from Cons.IH [OF this] show ?case by simp
qed

lemma Tfidf_init_Inr:
  assumes "Tfidf_init env lib sp p nd = Inr t"
  shows "spider t = sp \<and> fst ` set (idf t) = set (word_vector t) \<and>
         (\<exists>t0. init_term_frequency lib (Tfidf_new sp) = Inr t0 \<and> idf t = idf t0 \<and>
               word_vector t = word_vector t0)"
proof -
  from assms obtain t0 docs where t0: "init_term_frequency lib (Tfidf_new sp) = Inr t0"
    and ins: "insert_documents env docs t0 = Inr t"
    by (auto simp: Tfidf_init_def split: sum.splits)
  from init_term_frequency_Inr [OF t0] insert_documents_fields [OF ins] t0
  show ?thesis by simp
qed


section \<open>The sample corpus, evaluated\<close>

lemma sample_spider_init: "Spider_init sample_nltk ''data'' ''txt'' ''english'' = Inr (sample_spider\<lparr>content := []\<rparr>)"
  by (simp add: Spider_init_def sample_nltk_def sample_spider_def)

lemma fresh_spider_init: "Spider_init sample_nltk ''data'' ''txt'' ''english'' = Inr fresh_spider"
  by (simp add: sample_spider_init fresh_spider_def)

lemma sample_index:
  "generate_term_index sample_nltk (Some [''cat'', ''emu'', ''emu'']) sample_spider =
     Inr (sample_spider\<lparr>term_index := [(''cat'', 2), (''sat'', 1), (''dog'', 1), (''ran'', 1), (''emu'', 1)]\<rparr>)"
  by (simp add: generate_term_index_def clear_index_def add_new_token_def sample_nltk_def
      sample_spider_def split_spaces_def stem_def Let_def)

lemma sample_seed_terms:
  "texts_terms sample_nltk sample_spider [''cat'', ''emu'', ''emu''] = [''cat'', ''emu'', ''emu'']"
  by (simp add: texts_terms_def text_terms_def surviving_tokens_def sample_nltk_def
      sample_spider_def split_spaces_def stem_def)

lemma sample_corpus_terms:
  "texts_terms sample_nltk sample_spider (map snd (content sample_spider)) =
     [''cat'', ''sat'', ''dog'', ''ran'', ''cat'']"
  by (simp add: texts_terms_def text_terms_def surviving_tokens_def sample_nltk_def
      sample_spider_def split_spaces_def stem_def)

lemma sample_quotients: "py_truediv 6 2 = Inr 3" "py_truediv 6 1 = Inr 6"
  using py_truediv_exact [of 2 6 3] py_truediv_exact [of 1 6 6] by simp_all

lemma sample_log_one: "math_log sample_libm 1 = Inr 0"
  by (simp add: math_log_def sample_libm_log float64_round_zero)

lemma indexed_spider_weights:
  "init_term_frequency sample_libm (Tfidf_new indexed_spider) =
     Inr \<lparr>spider = indexed_spider,
          idf = [(''cat'', float64_round (ln 3)), (''sat'', float64_round (ln 6)),
                 (''dog'', float64_round (ln 6)), (''ran'', float64_round (ln 6)),
                 (''emu'', float64_round (ln 6))],
          indexed_documents = [],
          word_vector = [''cat'', ''sat'', ''dog'', ''ran'', ''emu'']\<rparr>"
  by (simp add: init_term_frequency_def Tfidf_new_def get_index_dictionary_def dict_of_items_def
      dict_update_def sample_quotients math_log_pos sample_libm_log Let_def indexed_spider_def
      sample_spider_def)

lemma weighted_tfidf_init: "init_term_frequency sample_libm (Tfidf_new indexed_spider) = Inr weighted_tfidf"
  by (simp add: indexed_spider_weights weighted_tfidf_def)

lemma weighted_tfidf_language: "language (spider weighted_tfidf) = ''english''"
  by (simp add: weighted_tfidf_def indexed_spider_def sample_spider_def)

lemma weighted_tfidf_query:
  "\<exists>v. create_word_vector sample_nltk weighted_tfidf ''cat emu'' = Inr v \<and> length v = 5"
proof -
  have l: "language (spider weighted_tfidf) = ''german'' \<or>
           language (spider weighted_tfidf) = ''english''"
    by (simp add: weighted_tfidf_language)
  have s: "stopwords_words sample_nltk (language (spider weighted_tfidf)) = Some [''the'']"
    by (simp add: weighted_tfidf_language sample_nltk_def)
  have w: "set (word_vector weighted_tfidf) \<subseteq> fst ` set (idf weighted_tfidf)"
    by (simp add: weighted_tfidf_def)
  have n: "length (word_vector weighted_tfidf) = 5" by (simp add: weighted_tfidf_def)
  from create_word_vector_succeeds [OF l s w, of "''cat emu''"] show ?thesis
    by (simp only: n)
qed

lemma no_survivor_sample: "surviving_tokens sample_nltk fresh_spider ''the a'' = []"
  by (simp add: surviving_tokens_def sample_nltk_def fresh_spider_def sample_spider_def
      split_spaces_def)

lemma fresh_tfidf_init:
  "Tfidf_init sample_nltk sample_libm fresh_spider ''same'' None = Inr (Tfidf_new fresh_spider)"
  by (simp add: Tfidf_init_def init_term_frequency_def Tfidf_new_def get_index_dictionary_def
      dict_of_items_def dict_update_def select_content_def fresh_spider_def sample_spider_def)


lemma four_fifths_weight: "\<exists>x. term_weight lib 4 5 = Inr x"
proof -
  have "\<bar>real_of_int 4 / real_of_int 5\<bar> \<le> float64_max" by (simp add: float64_max_def)
  then have q: "py_truediv 4 5 = Inr (float64_round (real_of_int 4 / real_of_int 5))"
    by (intro py_truediv_in_range) simp
  have "float64_round (1 / 2 ^ 1) \<le> float64_round (real_of_int 4 / real_of_int 5)"
    by (rule float64_round_mono) simp
  moreover have "float64_round (1 / 2 ^ 1) = 1 / 2 ^ 1" by (rule float64_round_inverse_power) simp
  ultimately have "0 < float64_round (real_of_int 4 / real_of_int 5)" by simp
  then have "math_log lib (float64_round (real_of_int 4 / real_of_int 5)) =
      Inr (libm_log lib (float64_round (real_of_int 4 / real_of_int 5)))"
    by (rule math_log_pos)
  with q show ?thesis by (simp add: term_weight_def)
qed

lemma zero_total_weights:
  "init_term_frequency sample_libm (Tfidf_new (sample_spider\<lparr>term_index := [(''cat'', 1), (''dog'', 0), (''emu'', - 1)]\<rparr>)) =
     Inl ValueError"
proof -
  have "py_truediv 0 1 = Inr 0" using py_truediv_exact [of 1 0 0] by simp
  moreover have "math_log sample_libm 0 = Inl ValueError" by (simp add: math_log_def)
  ultimately show ?thesis
    by (simp add: init_term_frequency_def Tfidf_new_def get_index_dictionary_def dict_of_items_def
        dict_update_def Let_def sample_spider_def)
qed

text \<open>The spider without a stemmer.\<close>

lemma french_spider_init: "Spider_init sample_nltk ''data'' ''txt'' ''french'' = Inr french_spider"
  by (simp add: Spider_init_def sample_nltk_def french_spider_def)

lemma french_tfidf_init:
  "Tfidf_init sample_nltk sample_libm french_spider ''same'' None = Inr (Tfidf_new french_spider)"
  by (simp add: Tfidf_init_def init_term_frequency_def Tfidf_new_def get_index_dictionary_def
      dict_of_items_def dict_update_def select_content_def french_spider_def)

lemma french_query:
  "create_word_vector sample_nltk (Tfidf_new french_spider) ''chat'' = Inl AttributeError"
proof -
  have "language (spider (Tfidf_new french_spider)) = ''french''"
    by (simp add: Tfidf_new_def french_spider_def)
  moreover have "add_new_token sample_nltk ''chat'' 1 french_spider = Inl AttributeError"
    by (simp add: add_new_token_def sample_nltk_def french_spider_def split_spaces_def)
  ultimately show ?thesis by (simp add: create_word_vector_def french_spider_init)
qed

text \<open>The table of \<open>heavy_spider\<close>: total mass \<^verbatim>\<open>10**50 + 2\<close>.\<close>

lemma heavy_spider_built:
  "add_new_token sample_nltk ''aa aa bb'' 100000000000000000000000000000000000000000000000000
     fresh_spider = Inr heavy_spider"
  by (simp add: add_new_token_def sample_nltk_def fresh_spider_def sample_spider_def
      split_spaces_def stem_def Let_def heavy_spider_def)

lemma heavy_quotient_aa:
  "py_truediv 100000000000000000000000000000000000000000000000002
     100000000000000000000000000000000000000000000000001 = Inr 1"
proof -
  let ?x = "real_of_int 100000000000000000000000000000000000000000000000002 /
            real_of_int 100000000000000000000000000000000000000000000000001"
  have "1 \<le> ?x" "?x \<le> 1 + 1 / 2 ^ 53" by simp_all
  then have r: "float64_round ?x = 1" by (rule float64_round_near_one)
  have "\<bar>?x\<bar> \<le> float64_max" by (simp add: float64_max_def)
  then have "py_truediv 100000000000000000000000000000000000000000000000002
     100000000000000000000000000000000000000000000000001 = Inr (float64_round ?x)"
    by (intro py_truediv_in_range) simp
  with r show ?thesis by (simp only:)
qed

lemma heavy_quotient_bb:
  "py_truediv 100000000000000000000000000000000000000000000000002 1 =
     Inr (float64_round 100000000000000000000000000000000000000000000000002)"
proof -
  have "\<bar>real_of_int 100000000000000000000000000000000000000000000000002 / real_of_int 1\<bar>
      \<le> float64_max"
    by (simp add: float64_max_def)
  then have "py_truediv 100000000000000000000000000000000000000000000000002 1 =
      Inr (float64_round (real_of_int 100000000000000000000000000000000000000000000000002 /
                          real_of_int 1))"
    by (intro py_truediv_in_range) simp
  then show ?thesis by simp
qed

lemma heavy_log:
  "math_log sample_libm (float64_round 100000000000000000000000000000000000000000000000002) =
     Inr heavy_weight"
proof -
  have "1 \<le> float64_round 100000000000000000000000000000000000000000000000002"
    by (rule float64_round_ge_one) simp
  then have "0 < float64_round 100000000000000000000000000000000000000000000000002" by simp
  from math_log_pos [OF this, of sample_libm] show ?thesis
    by (simp only: heavy_weight_def sample_libm_log)
qed

lemma heavy_weight_float: "float64_round heavy_weight = heavy_weight"
  by (simp add: heavy_weight_def float64_round_idem)

lemma heavy_weight_large: "100 \<le> heavy_weight"
proof -
  let ?x = "100000000000000000000000000000000000000000000000002 :: real"
  have "float64_round (2 powr real_of_int 165) = 2 powr real_of_int 165"
    by (rule float64_round_two_powr) simp
  then have p: "float64_round (2 ^ 165) = (2 ^ 165 :: real)"
    using two_powr_nat [of 165] by simp
  have "(2 ^ 165 :: real) \<le> ?x" by simp
  then have "float64_round (2 ^ 165) \<le> float64_round ?x" by (rule float64_round_mono)
  with p have big: "(2 ^ 165 :: real) \<le> float64_round ?x" by simp
  have "exp (100::real) = exp 1 ^ 100" using exp_of_nat_mult [of 100 "1::real"] by simp
  also have "\<dots> \<le> (3::real) ^ 100" by (rule power_mono) (simp_all add: exp_le)
  also have "\<dots> \<le> 2 ^ 165" by simp
  finally have "exp 100 \<le> float64_round ?x" using big by linarith
  moreover from big have "0 < float64_round ?x" by (simp add: less_le_trans [of 0 "2 ^ 165"])
  ultimately have "100 \<le> ln (float64_round ?x)" by (simp add: ln_ge_iff)
  then have "float64_round 100 \<le> float64_round (ln (float64_round ?x))"
    by (rule float64_round_mono)
  moreover have "float64_round 100 = 100" using float64_round_of_int [of 100] by simp
  ultimately show ?thesis by (simp add: heavy_weight_def)
qed

lemma heavy_weights:
  "init_term_frequency sample_libm (Tfidf_new heavy_spider) = Inr (heavy_tfidf\<lparr>indexed_documents := []\<rparr>)"
  by (simp add: init_term_frequency_def Tfidf_new_def get_index_dictionary_def dict_of_items_def
      dict_update_def heavy_quotient_aa heavy_quotient_bb heavy_log sample_log_one Let_def
      heavy_spider_def heavy_tfidf_def fresh_spider_def sample_spider_def)

lemma heavy_language: "language heavy_spider = ''english''"
  by (simp add: heavy_spider_def fresh_spider_def sample_spider_def)

lemma heavy_document:
  "create_word_vector sample_nltk (heavy_tfidf\<lparr>indexed_documents := []\<rparr>) ''bb'' =
     Inr [0, heavy_weight]"
proof -
  have ns: "Spider_init sample_nltk ''data'' ''txt''
      (language (spider (heavy_tfidf\<lparr>indexed_documents := []\<rparr>))) = Inr fresh_spider"
    by (simp add: heavy_tfidf_def heavy_language fresh_spider_init)
  have ns1: "add_new_token sample_nltk ''bb'' 1 fresh_spider =
      Inr (fresh_spider\<lparr>term_index := [(''bb'', 1)]\<rparr>)"
    by (simp add: add_new_token_def sample_nltk_def fresh_spider_def sample_spider_def
        split_spaces_def stem_def Let_def)
  show ?thesis
    unfolding create_word_vector_run [OF ns ns1]
    by (simp add: heavy_tfidf_def py_truediv_same heavy_weight_float)
qed

lemma heavy_tfidf_init:
  "Tfidf_init sample_nltk sample_libm heavy_spider ''new'' (Some [(''doc'', ''bb'')]) = Inr heavy_tfidf"
  by (simp add: Tfidf_init_def heavy_weights select_content_def heavy_document)
     (simp add: heavy_tfidf_def)

lemma heavy_query: "create_word_vector sample_nltk heavy_tfidf ''cc'' = Inr [0, 0]"
proof -
  have ns: "Spider_init sample_nltk ''data'' ''txt'' (language (spider heavy_tfidf)) = Inr fresh_spider"
    by (simp add: heavy_tfidf_def heavy_language fresh_spider_init)
  have ns1: "add_new_token sample_nltk ''cc'' 1 fresh_spider =
      Inr (fresh_spider\<lparr>term_index := [(''cc'', 1)]\<rparr>)"
    by (simp add: add_new_token_def sample_nltk_def fresh_spider_def sample_spider_def
        split_spaces_def stem_def Let_def)
  show ?thesis
    unfolding create_word_vector_run [OF ns ns1]
    by (simp add: heavy_tfidf_def)
qed

lemma heavy_distance:
  "np_sub [0, heavy_weight] [0, 0] = Inr [0, heavy_weight] \<and>
   100 \<le> linalg_norm [0, heavy_weight]"
  using heavy_weight_large by (simp add: np_sub_def linalg_norm_def)

text \<open>
  The table of \<open>huge_spider\<close>: every count is at least 1, and the quotient for \<^verbatim>\<open>'bb'\<close> is
  \<^verbatim>\<open>10**400 + 2\<close>, too large for a float. The same holds with a third term of count 0, as
  after \<^verbatim>\<open>add_new_token('cc cc', count_value=-1)\<close>.
\<close>

lemma huge_spider_built:
  "add_new_token sample_nltk ''aa aa bb'' (10 ^ 400) fresh_spider = Inr huge_spider"
  by (simp add: add_new_token_def sample_nltk_def fresh_spider_def sample_spider_def
      split_spaces_def stem_def Let_def huge_spider_def)

lemma huge_quotient_aa: "py_truediv (10 ^ 400 + 2) (10 ^ 400 + 1) = Inr 1"
proof -
  let ?x = "real_of_int (10 ^ 400 + 2) / real_of_int (10 ^ 400 + 1)"
  have "1 \<le> ?x" "?x \<le> 1 + 1 / 2 ^ 53" by simp_all
  then have r: "float64_round ?x = 1" by (rule float64_round_near_one)
  have "\<bar>?x\<bar> \<le> float64_max" by (simp add: float64_max_def)
  then have "py_truediv (10 ^ 400 + 2) (10 ^ 400 + 1) = Inr (float64_round ?x)"
    by (intro py_truediv_in_range) simp
  with r show ?thesis by (simp only:)
qed

lemma huge_quotient_bb: "py_truediv (10 ^ 400 + 2) 1 = Inl OverflowError"
proof -
  let ?x = "real_of_int (10 ^ 400 + 2) / real_of_int 1"
  have "float64_round (2 powr real_of_int 1024) = 2 powr real_of_int 1024"
    by (rule float64_round_two_powr) simp
  then have p: "float64_round (2 ^ 1024) = (2 ^ 1024 :: real)"
    using two_powr_nat [of 1024] by simp
  have "(2 ^ 1024 :: real) \<le> ?x" by simp
  then have "float64_round (2 ^ 1024) \<le> float64_round ?x" by (rule float64_round_mono)
  with p have "(2 ^ 1024 :: real) \<le> float64_round ?x" by simp
  then have "2 ^ 1024 \<le> \<bar>float64_round ?x\<bar>" by linarith
  then show ?thesis by (simp only: py_truediv_def Let_def) simp
qed

lemma huge_spider_overflow: "init_term_frequency sample_libm (Tfidf_new huge_spider) = Inl OverflowError"
  using huge_quotient_aa huge_quotient_bb
  by (simp add: init_term_frequency_def Tfidf_new_def get_index_dictionary_def dict_of_items_def
      dict_update_def sample_log_one Let_def huge_spider_def fresh_spider_def sample_spider_def)

lemma huge_zero_overflow:
  "init_term_frequency sample_libm
     (Tfidf_new (huge_spider\<lparr>term_index := [(''aa'', 10 ^ 400 + 1), (''bb'', 1), (''cc'', 0)]\<rparr>)) =
     Inl OverflowError"
  using huge_quotient_aa huge_quotient_bb
  by (simp add: init_term_frequency_def Tfidf_new_def get_index_dictionary_def dict_of_items_def
      dict_update_def sample_log_one Let_def huge_spider_def fresh_spider_def sample_spider_def)

section \<open>Claims about the weight table\<close>




text \<open>
  Claim C5, as the code has it. Over an empty table the weight computation raises nothing: the
  loop body never runs and the weight table stays empty. Over a table that holds a term of raw
  frequency 0 it always fails, with the error of the first term in sorted order whose weight
  cannot be computed. The terms of positive count come first, so the error is
  \<^verbatim>\<open>ZeroDivisionError\<close> exactly when each of them has a weight; otherwise it is the
  \<^verbatim>\<open>OverflowError\<close> of a quotient or the \<^verbatim>\<open>ValueError\<close> of a logarithm.
\<close>

theorem init_term_frequency_degenerate:
  "(term_index sp = [] \<longrightarrow> init_term_frequency lib (Tfidf_new sp) = Inr (Tfidf_new sp)) \<and>
   (distinct (map fst (term_index sp)) \<longrightarrow> 0 \<in> snd ` set (term_index sp) \<longrightarrow>
      (\<exists>e. init_term_frequency lib (Tfidf_new sp) = Inl e \<and>
           (e = ZeroDivisionError \<or> e = OverflowError \<or> e = ValueError)) \<and>
      (init_term_frequency lib (Tfidf_new sp) = Inl ZeroDivisionError \<longleftrightarrow>
         (\<forall>c\<in>snd ` set (term_index sp). 0 < c \<longrightarrow>
            (\<exists>x. term_weight lib (sum_list (map snd (term_index sp))) c = Inr x))))"
proof (intro conjI impI)
  assume "term_index sp = []"
  then show "init_term_frequency lib (Tfidf_new sp) = Inr (Tfidf_new sp)"
    by (simp add: init_term_frequency_def get_index_dictionary_def dict_of_items_def
        dict_update_def Tfidf_new_def)
next
  assume "distinct (map fst (term_index sp))" and "0 \<in> snd ` set (term_index sp)"
  then show "\<exists>e. init_term_frequency lib (Tfidf_new sp) = Inl e \<and>
           (e = ZeroDivisionError \<or> e = OverflowError \<or> e = ValueError)"
    by (rule init_term_frequency_zero_count [THEN conjunct1])
next
  assume "distinct (map fst (term_index sp))" and "0 \<in> snd ` set (term_index sp)"
  then show "init_term_frequency lib (Tfidf_new sp) = Inl ZeroDivisionError \<longleftrightarrow>
         (\<forall>c\<in>snd ` set (term_index sp). 0 < c \<longrightarrow>
            (\<exists>x. term_weight lib (sum_list (map snd (term_index sp))) c = Inr x))"
    by (rule init_term_frequency_zero_count [THEN conjunct2])
qed

theorem init_term_frequency_degenerate_witness:
  "term_index sample_spider = [] \<and>
   init_term_frequency sample_libm (Tfidf_new sample_spider) = Inr (Tfidf_new sample_spider) \<and>
   distinct (map fst (term_index
     (sample_spider\<lparr>term_index := [(''cat'', 5), (''dog'', 0), (''emu'', - 1)]\<rparr>))) \<and>
   0 \<in> snd ` set (term_index
     (sample_spider\<lparr>term_index := [(''cat'', 5), (''dog'', 0), (''emu'', - 1)]\<rparr>)) \<and>
   list_all (\<lambda>c. 0 < c \<longrightarrow> (\<exists>x. term_weight sample_libm 4 c = Inr x)) [5, 0, - 1] \<and>
   init_term_frequency sample_libm (Tfidf_new
     (sample_spider\<lparr>term_index := [(''cat'', 5), (''dog'', 0), (''emu'', - 1)]\<rparr>)) =
     Inl ZeroDivisionError"
proof -
  let ?s = "sample_spider\<lparr>term_index := [(''cat'', 5), (''dog'', 0), (''emu'', - 1)]\<rparr>"
  have e: "term_index sample_spider = []" by (simp add: sample_spider_def)
  from init_term_frequency_degenerate [of sample_spider sample_libm] e
  have a: "init_term_frequency sample_libm (Tfidf_new sample_spider) = Inr (Tfidf_new sample_spider)"
    by blast
  have d: "distinct (map fst (term_index ?s))" by simp
  have z: "0 \<in> snd ` set (term_index ?s)" by simp
  have l: "list_all (\<lambda>c. 0 < c \<longrightarrow> (\<exists>x. term_weight sample_libm 4 c = Inr x)) [5, 0, - 1]"
    using four_fifths_weight [of sample_libm] by simp
  then have "\<forall>c\<in>snd ` set (term_index ?s). 0 < c \<longrightarrow>
      (\<exists>x. term_weight sample_libm (sum_list (map snd (term_index ?s))) c = Inr x)"
    by simp
  with init_term_frequency_degenerate [of ?s sample_libm] d z
  have "init_term_frequency sample_libm (Tfidf_new ?s) = Inl ZeroDivisionError" by blast
  with e a d z l show ?thesis by blast
qed

text \<open>
  The claim as stated fails twice: the empty vocabulary (total mass 0) gives a result and no
  error, and a term of raw frequency 0 can be preceded by a term whose weight fails first,
  with the domain error of \<^verbatim>\<open>math.log\<close> (\<^verbatim>\<open>ValueError\<close>) in one table and with the
  \<^verbatim>\<open>OverflowError\<close> of the division in another.
\<close>

theorem init_term_frequency_degenerate_counterexample:
  "sum_list (map snd (term_index sample_spider)) = 0 \<and>
   init_term_frequency sample_libm (Tfidf_new sample_spider) = Inr (Tfidf_new sample_spider) \<and>
   0 \<in> snd ` set (term_index
     (sample_spider\<lparr>term_index := [(''cat'', 1), (''dog'', 0), (''emu'', - 1)]\<rparr>)) \<and>
   init_term_frequency sample_libm (Tfidf_new
     (sample_spider\<lparr>term_index := [(''cat'', 1), (''dog'', 0), (''emu'', - 1)]\<rparr>)) =
     Inl ValueError \<and>
   0 \<in> snd ` set (term_index
     (huge_spider\<lparr>term_index := [(''aa'', 10 ^ 400 + 1), (''bb'', 1), (''cc'', 0)]\<rparr>)) \<and>
   init_term_frequency sample_libm
     (Tfidf_new (huge_spider\<lparr>term_index := [(''aa'', 10 ^ 400 + 1), (''bb'', 1), (''cc'', 0)]\<rparr>)) =
     Inl OverflowError"
proof -
  have "sum_list (map snd (term_index sample_spider)) = 0" by (simp add: sample_spider_def)
  moreover have "init_term_frequency sample_libm (Tfidf_new sample_spider) =
      Inr (Tfidf_new sample_spider)"
    by (simp add: init_term_frequency_def Tfidf_new_def get_index_dictionary_def dict_of_items_def
        dict_update_def Let_def sample_spider_def)
  moreover have "0 \<in> snd ` set (term_index
      (sample_spider\<lparr>term_index := [(''cat'', 1), (''dog'', 0), (''emu'', - 1)]\<rparr>))"
    by simp
  moreover have "0 \<in> snd ` set (term_index
      (huge_spider\<lparr>term_index := [(''aa'', 10 ^ 400 + 1), (''bb'', 1), (''cc'', 0)]\<rparr>))"
    by simp
  moreover note zero_total_weights huge_zero_overflow
  ultimately show ?thesis by blast
qed

text \<open>
  Claim C10. Take a table with distinct keys in which every count is at least 1, and a faithful
  logarithm. Whenever the weight computation succeeds on the table, and it does when the total
  mass is within the range of a float, every weight is nonnegative, and every vector that
  \<^verbatim>\<open>create_word_vector\<close> returns against that weight table has nonnegative coordinates only.
\<close>

theorem weights_and_vectors_nonnegative:
  assumes lib: "log_faithful lib"
      and d: "distinct (map fst (term_index sp))"
      and pos: "\<forall>c\<in>snd ` set (term_index sp). 1 \<le> c"
  shows "(real_of_int (sum_list (map snd (term_index sp))) \<le> float64_max \<longrightarrow>
            (\<exists>t. init_term_frequency lib (Tfidf_new sp) = Inr t)) \<and>
         (\<forall>t. init_term_frequency lib (Tfidf_new sp) = Inr t \<longrightarrow>
            (\<forall>x\<in>snd ` set (idf t). 0 \<le> x) \<and>
            (\<forall>t' env text v. idf t' = idf t \<longrightarrow> create_word_vector env t' text = Inr v \<longrightarrow>
               (\<forall>x\<in>set v. 0 \<le> x)))"
proof (intro conjI allI impI)
  assume "real_of_int (sum_list (map snd (term_index sp))) \<le> float64_max"
  with d pos show "\<exists>t. init_term_frequency lib (Tfidf_new sp) = Inr t"
    by (rule init_term_frequency_succeeds)
next
  fix t
  assume t: "init_term_frequency lib (Tfidf_new sp) = Inr t"
  from lib d pos t show "\<forall>x\<in>snd ` set (idf t). 0 \<le> x" by (rule init_term_frequency_nonneg)
next
  fix t t' env s v
  assume t: "init_term_frequency lib (Tfidf_new sp) = Inr t"
    and same: "idf t' = idf t" and run: "create_word_vector env t' s = Inr v"
  from lib d pos t have "\<forall>x\<in>snd ` set (idf t). 0 \<le> x" by (rule init_term_frequency_nonneg)
  with same have "\<forall>x\<in>snd ` set (idf t'). 0 \<le> x" by simp
  then show "\<forall>x\<in>set v. 0 \<le> x" using run by (rule create_word_vector_nonneg)
qed

theorem weights_and_vectors_nonnegative_witness:
  "log_faithful sample_libm \<and>
   distinct (map fst (term_index indexed_spider)) \<and>
   list_all (\<lambda>c. 1 \<le> c) (map snd (term_index indexed_spider)) \<and>
   real_of_int (sum_list (map snd (term_index indexed_spider))) \<le> float64_max \<and>
   init_term_frequency sample_libm (Tfidf_new indexed_spider) = Inr weighted_tfidf \<and>
   list_all (\<lambda>x. 0 \<le> x) (map snd (idf weighted_tfidf)) \<and>
   (\<exists>v. create_word_vector sample_nltk weighted_tfidf ''cat emu'' = Inr v \<and>
        list_all (\<lambda>x. 0 \<le> x) v)"
proof -
  have d: "distinct (map fst (term_index indexed_spider))"
    by (simp add: indexed_spider_def)
  have p: "\<forall>c\<in>snd ` set (term_index indexed_spider). 1 \<le> c"
    by (simp add: indexed_spider_def)
  have r: "real_of_int (sum_list (map snd (term_index indexed_spider))) \<le> float64_max"
    by (simp add: indexed_spider_def float64_max_def)
  from weights_and_vectors_nonnegative [OF sample_libm_faithful d p] weighted_tfidf_init
  have w: "\<forall>x\<in>snd ` set (idf weighted_tfidf). 0 \<le> x"
    and v: "\<forall>t' env text v. idf t' = idf weighted_tfidf \<longrightarrow>
              create_word_vector env t' text = Inr v \<longrightarrow> (\<forall>x\<in>set v. 0 \<le> x)"
    by blast+
  from weighted_tfidf_query obtain q where
    q: "create_word_vector sample_nltk weighted_tfidf ''cat emu'' = Inr q" by blast
  with v have "\<forall>x\<in>set q. 0 \<le> x" by blast
  with q have "\<exists>v. create_word_vector sample_nltk weighted_tfidf ''cat emu'' = Inr v \<and>
        list_all (\<lambda>x. 0 \<le> x) v"
    by (auto simp: list_all_iff)
  moreover from w have "list_all (\<lambda>x. 0 \<le> x) (map snd (idf weighted_tfidf))"
    by (simp add: list_all_iff)
  moreover from p have "list_all (\<lambda>c. 1 \<le> c) (map snd (term_index indexed_spider))"
    by (simp add: list_all_iff)
  ultimately show ?thesis using d r weighted_tfidf_init sample_libm_faithful by blast
qed

section \<open>Claims about the term index\<close>

text \<open>
  Claim C6. With a stemmer in place, folding the seed texts into the table with increment 0
  leaves the count of every term already present as it is and gives every other term of the
  seeds the count 1; and \<^verbatim>\<open>generate_term_index\<close> returns a table in which every seed term that
  is no term of a corpus document has the count 1, however often the seed list repeats it.
\<close>

theorem seed_terms_count_one:
  assumes st: "stemmer s = Some st"
  shows "(\<forall>s' k. add_all env 0 seeds s = Inr s' \<longrightarrow>
            map_of (term_index s') k =
              (case map_of (term_index s) k of
                 Some c \<Rightarrow> Some c
               | None \<Rightarrow> if k \<in> set (texts_terms env s seeds) then Some 1 else None)) \<and>
         (\<exists>s'. generate_term_index env (Some seeds) s = Inr s' \<and>
            (\<forall>k. k \<in> set (texts_terms env s seeds) \<longrightarrow>
                 k \<notin> set (texts_terms env s (map snd (content s))) \<longrightarrow>
                 map_of (term_index s') k = Some 1))"
proof (intro conjI allI impI)
  fix s' k
  assume "add_all env 0 seeds s = Inr s'"
  with st show "map_of (term_index s') k =
      (case map_of (term_index s) k of
         Some c \<Rightarrow> Some c
       | None \<Rightarrow> if k \<in> set (texts_terms env s seeds) then Some 1 else None)"
    by (rule add_all_seed)
next
  let ?s0 = "clear_index s"
  have st0: "stemmer ?s0 = Some st" using st by (simp add: clear_index_def)
  from add_all_succeeds [OF st0]
  obtain s1 where corpus: "add_all env 1 (map snd (content s)) ?s0 = Inr s1" by blast
  from add_all_fields [OF corpus]
  have same: "stopwords s1 = stopwords s" "language s1 = language s" "stemmer s1 = stemmer s"
    by (simp_all add: clear_index_def)
  with st have st1: "stemmer s1 = Some st" by simp
  from add_all_succeeds [OF st1]
  obtain s' where seed: "add_all env 0 seeds s1 = Inr s'" by blast
  have run: "generate_term_index env (Some seeds) s = Inr s'"
    by (simp add: generate_term_index_def corpus seed)
  have keys1: "fst ` set (term_index s1) = set (texts_terms env s (map snd (content s)))"
    using add_all_keys [OF st0 corpus]
      texts_terms_cong [of ?s0 s env "map snd (content s)"]
    by (simp add: clear_index_def)
  have terms1: "texts_terms env s1 seeds = texts_terms env s seeds"
    using same by (rule texts_terms_cong)
  have "\<forall>k. k \<in> set (texts_terms env s seeds) \<longrightarrow>
           k \<notin> set (texts_terms env s (map snd (content s))) \<longrightarrow>
           map_of (term_index s') k = Some 1"
  proof (intro allI impI)
    fix k
    assume k: "k \<in> set (texts_terms env s seeds)"
      and fresh: "k \<notin> set (texts_terms env s (map snd (content s)))"
    from fresh keys1 have "map_of (term_index s1) k = None"
      by (simp add: map_of_eq_None_iff)
    with add_all_seed [OF st1 seed, of k] k terms1
    show "map_of (term_index s') k = Some 1" by simp
  qed
  with run show "\<exists>s'. generate_term_index env (Some seeds) s = Inr s' \<and>
            (\<forall>k. k \<in> set (texts_terms env s seeds) \<longrightarrow>
                 k \<notin> set (texts_terms env s (map snd (content s))) \<longrightarrow>
                 map_of (term_index s') k = Some 1)"
    by blast
qed

theorem seed_terms_count_one_witness:
  "stemmer sample_spider = Some EnglishStemmer \<and>
   generate_term_index sample_nltk (Some [''cat'', ''emu'', ''emu'']) sample_spider = Inr indexed_spider \<and>
   ''emu'' \<in> set (texts_terms sample_nltk sample_spider [''cat'', ''emu'', ''emu'']) \<and>
   ''emu'' \<notin> set (texts_terms sample_nltk sample_spider (map snd (content sample_spider))) \<and>
   map_of (term_index indexed_spider) ''emu'' = Some 1"
proof -
  have st: "stemmer sample_spider = Some EnglishStemmer" by (simp add: sample_spider_def)
  from seed_terms_count_one [OF st, of sample_nltk "[''cat'', ''emu'', ''emu'']"]
  obtain s' where run: "generate_term_index sample_nltk (Some [''cat'', ''emu'', ''emu'']) sample_spider = Inr s'"
    and one: "\<forall>k. k \<in> set (texts_terms sample_nltk sample_spider [''cat'', ''emu'', ''emu'']) \<longrightarrow>
                 k \<notin> set (texts_terms sample_nltk sample_spider (map snd (content sample_spider))) \<longrightarrow>
                 map_of (term_index s') k = Some 1"
    by blast
  from run have s': "s' = indexed_spider" by (simp add: sample_index indexed_spider_def)
  have a: "''emu'' \<in> set (texts_terms sample_nltk sample_spider [''cat'', ''emu'', ''emu''])"
    by (simp add: sample_seed_terms)
  have b: "''emu'' \<notin> set (texts_terms sample_nltk sample_spider (map snd (content sample_spider)))"
    by (simp add: sample_corpus_terms)
  from one a b have "map_of (term_index s') ''emu'' = Some 1" by blast
  with st run s' a b show ?thesis by simp
qed

section \<open>Claims about construction\<close>

text \<open>
  An unknown \<^verbatim>\<open>index_documents\<close> never yields a \<^verbatim>\<open>Tfidf\<close>: the constructor raises.
\<close>

lemma Tfidf_init_unknown_policy:
  "p \<noteq> ''same'' \<Longrightarrow> p \<noteq> ''new'' \<Longrightarrow> p \<noteq> ''add'' \<Longrightarrow> \<exists>e. Tfidf_init env lib sp p nd = Inl e"
  by (simp add: Tfidf_init_def select_content_def split: sum.splits)

text \<open>
  Claim C3 at a language outside german and english for which stop words exist: the
  \<^verbatim>\<open>Spider\<close> constructor returns an object (without a stemmer) and raises nothing.
\<close>

theorem Spider_init_unknown_language:
  "Spider_init sample_nltk ''data'' ''txt'' ''french'' =
     Inr \<lparr>corpus = ''data'', file_type = ''txt'', content = [], term_index = [],
          stopwords = [''le''], language = ''french'', stemmer = None\<rparr>"
  by (simp add: Spider_init_def sample_nltk_def)

section \<open>Claims about vectorisation\<close>

text \<open>
  Claim C4, as the code has it. When no token of the text survives the filter, vectorisation
  raises nothing and returns the zero vector over the vocabulary.
\<close>

theorem create_word_vector_empty_text:
  assumes "Spider_init env ''data'' ''txt'' (language (spider t)) = Inr new_spider"
      and "surviving_tokens env new_spider text = []"
  shows "create_word_vector env t text = Inr (replicate (length (word_vector t)) 0)"
  using assms by (rule create_word_vector_no_survivor)

theorem create_word_vector_empty_text_witness:
  "Spider_init sample_nltk ''data'' ''txt'' (language (spider weighted_tfidf)) = Inr fresh_spider \<and>
   surviving_tokens sample_nltk fresh_spider ''the a'' = [] \<and>
   create_word_vector sample_nltk weighted_tfidf ''the a'' =
     Inr (replicate (length (word_vector weighted_tfidf)) 0)"
proof -
  have a: "Spider_init sample_nltk ''data'' ''txt'' (language (spider weighted_tfidf)) = Inr fresh_spider"
    by (simp add: weighted_tfidf_language fresh_spider_init)
  from create_word_vector_empty_text [OF a no_survivor_sample] a no_survivor_sample
  show ?thesis by simp
qed

text \<open>
  The claim as stated fails: a text of a stop word and a one-letter token has no surviving
  token, and its vector is returned.
\<close>

theorem create_word_vector_empty_text_counterexample:
  "surviving_tokens sample_nltk fresh_spider ''the a'' = [] \<and>
   create_word_vector sample_nltk weighted_tfidf ''the a'' = Inr [0, 0, 0, 0, 0]"
proof -
  have a: "Spider_init sample_nltk ''data'' ''txt'' (language (spider weighted_tfidf)) = Inr fresh_spider"
    by (simp add: weighted_tfidf_language fresh_spider_init)
  have "create_word_vector sample_nltk weighted_tfidf ''the a'' =
        Inr (replicate (length (word_vector weighted_tfidf)) 0)"
    using a no_survivor_sample by (rule create_word_vector_no_survivor)
  also have "replicate (length (word_vector weighted_tfidf)) (0::real) = [0, 0, 0, 0, 0]"
    by (simp add: weighted_tfidf_def numeral_eq_Suc)
  finally show ?thesis using no_survivor_sample by simp
qed

section \<open>Claims about search\<close>

text \<open>
  Over a spider of a supported language the query always has a vector, and the scan of an
  empty document store returns \<^verbatim>\<open>'no document found'\<close>.
\<close>

lemma search_empty_store_supported:
  assumes init: "Tfidf_init env lib sp p nd = Inr t"
      and lang: "language sp = ''german'' \<or> language sp = ''english''"
      and sw: "stopwords_words env (language sp) = Some sw"
      and empty: "indexed_documents t = []"
  shows "search env t text = Inr ''no document found''"
proof -
  from Tfidf_init_Inr [OF init] have sp: "spider t = sp"
    and wf: "set (word_vector t) \<subseteq> fst ` set (idf t)" by simp_all
  from create_word_vector_succeeds [of t env sw "text"] lang sw wf sp
  obtain q where "create_word_vector env t text = Inr q" by auto
  then show ?thesis by (simp add: search_def search_best_def empty)
qed

text \<open>
  Claim C7 at a \<^verbatim>\<open>Tfidf\<close> over \<^verbatim>\<open>Spider(language='french')\<close>: both constructors return, the
  document store is empty, and \<^verbatim>\<open>search('chat')\<close> raises \<^verbatim>\<open>AttributeError\<close>, since the spider
  that \<^verbatim>\<open>create_word_vector\<close> builds for the query has no stemmer.
\<close>

theorem search_empty_store_raises:
  "Spider_init sample_nltk ''data'' ''txt'' ''french'' = Inr french_spider \<and>
   Tfidf_init sample_nltk sample_libm french_spider ''same'' None = Inr (Tfidf_new french_spider) \<and>
   indexed_documents (Tfidf_new french_spider) = [] \<and>
   search sample_nltk (Tfidf_new french_spider) ''chat'' = Inl AttributeError"
  by (simp add: french_spider_init french_tfidf_init search_def search_best_def french_query)
     (simp add: Tfidf_new_def)



text \<open>
  Claim C2 at a store of one document and a query of one surviving token: the only document is
  at the distance \<open>heavy_weight\<close>, the logarithm of \<^verbatim>\<open>10**50 + 2\<close> in float arithmetic,
  which is more than 100, and \<^verbatim>\<open>search\<close> returns \<^verbatim>\<open>'no document found'\<close> instead of
  \<^verbatim>\<open>'doc'\<close>.
\<close>

theorem search_single_document_missed:
  "add_new_token sample_nltk ''aa aa bb'' 100000000000000000000000000000000000000000000000000
     fresh_spider = Inr heavy_spider \<and>
   Tfidf_init sample_nltk sample_libm heavy_spider ''new'' (Some [(''doc'', ''bb'')]) = Inr heavy_tfidf \<and>
   map fst (indexed_documents heavy_tfidf) = [''doc''] \<and>
   surviving_tokens sample_nltk fresh_spider ''cc'' = [''cc''] \<and>
   search sample_nltk heavy_tfidf ''cc'' = Inr ''no document found''"
proof -
  have "search_loop [0, 0] (indexed_documents heavy_tfidf) (''no document found'', 100) =
        Inr (''no document found'', 100)"
    using heavy_distance by (simp add: heavy_tfidf_def Let_def)
  then have "search sample_nltk heavy_tfidf ''cc'' = Inr ''no document found''"
    by (simp add: search_def search_best_def heavy_query)
  moreover have "surviving_tokens sample_nltk fresh_spider ''cc'' = [''cc'']"
    by (simp add: surviving_tokens_def sample_nltk_def fresh_spider_def sample_spider_def
        split_spaces_def)
  moreover have "map fst (indexed_documents heavy_tfidf) = [''doc'']"
    by (simp add: heavy_tfidf_def)
  ultimately show ?thesis using heavy_spider_built heavy_tfidf_init by simp
qed

end
